theory Spec2Isabelle
  imports Complex_Main
begin

section \<open>Platform values: strings, numbers, JSON\<close>

text \<open>
  A JavaScript string is modelled as the list of its code units, each a \<open>char\<close>;
  code units above 255 are outside the model.
\<close>

definition isDigit :: "char \<Rightarrow> bool" where
  "isDigit c = (c \<in> set ''0123456789'')"

definition digitVal :: "char \<Rightarrow> nat" where
  "digitVal c = of_char c - 48"

definition digitChar :: "nat \<Rightarrow> char" where
  "digitChar n = ''0123456789'' ! n"

definition digitsValue :: "string \<Rightarrow> nat" where
  "digitsValue ds = foldl (\<lambda>a c. 10 * a + digitVal c) 0 ds"

text \<open>The decimal numeral of a natural number, as \<open>String(n)\<close> prints it.\<close>

fun digitsOf :: "nat \<Rightarrow> string" where
  "digitsOf n = (if n < 10 then [digitChar n] else digitsOf (n div 10) @ [digitChar (n mod 10)])"

declare digitsOf.simps [simp del]

definition intToString :: "int \<Rightarrow> string" where
  "intToString i = (if i < 0 then CHR ''-'' # digitsOf (nat (- i)) else digitsOf (nat i))"

definition padStart :: "nat \<Rightarrow> char \<Rightarrow> string \<Rightarrow> string" where
  "padStart n c s = replicate (n - length s) c @ s"

definition dquote :: char where
  "dquote = CHR 0x22"

definition backslash :: char where
  "backslash = CHR 0x5C"

subsection \<open>JavaScript values\<close>

text \<open>
  The values a field of type \<open>unknown\<close> can hold.  A finite number is the rational it
  denotes.  An object is the list of its own properties in insertion order.
\<close>

datatype jsnumber = Finite rat | NaN | PosInfinity | NegInfinity

datatype jsvalue =
    JUndefined
  | JNull
  | JBoolean bool
  | JNumber jsnumber
  | JString string
  | JArray "jsvalue list"
  | JObject "(string \<times> jsvalue) list"

subsection \<open>JSON.parse\<close>

text \<open>
  \<open>JSON.parse\<close> is modelled as a scanner that reads one code unit at a time and a
  parser that reads one token at a time; \<open>None\<close> is the SyntaxError it throws.
  The IEEE rounding of a number literal is not modelled: the literal denotes its exact
  rational value.  A \<open>\u\<close> escape above 00FF denotes a code unit that \<open>char\<close>
  cannot hold and is rejected.
\<close>

datatype token =
    TLBrace | TRBrace | TLBracket | TRBracket | TColon | TComma
  | TString string | TNumber rat | TTrue | TFalse | TNull

datatype lexstate =
    LIdle
  | LString string
  | LEscape string
  | LUnicode string string
  | LNumber string
  | LLiteral string token

definition isJsonWhitespace :: "char \<Rightarrow> bool" where
  "isJsonWhitespace c = (c = CHR 0x20 \<or> c = CHR 0x09 \<or> c = CHR 0x0A \<or> c = CHR 0x0D)"

definition isNumberChar :: "char \<Rightarrow> bool" where
  "isNumberChar c = (isDigit c \<or> c = CHR ''.'' \<or> c = CHR ''e'' \<or> c = CHR ''E''
     \<or> c = CHR ''+'' \<or> c = CHR ''-'')"

definition hexVal :: "char \<Rightarrow> nat option" where
  "hexVal c = (let n = (of_char c :: nat) in
     if 48 \<le> n \<and> n \<le> 57 then Some (n - 48)
     else if 65 \<le> n \<and> n \<le> 70 then Some (n - 55)
     else if 97 \<le> n \<and> n \<le> 102 then Some (n - 87)
     else None)"

definition hexValue :: "string \<Rightarrow> nat" where
  "hexValue hs = foldl (\<lambda>a c. 16 * a + (case hexVal c of Some v \<Rightarrow> v | None \<Rightarrow> 0)) 0 hs"

text \<open>
  The value of a number literal
  \<open>-? (0 | [1-9][0-9]*) (. [0-9]+)? ([eE] [+-]? [0-9]+)?\<close>; \<open>None\<close> when the
  text is not of that form.
\<close>

definition numberOfLiteral :: "string \<Rightarrow> rat option" where
  "numberOfLiteral cs =
    (let neg = (cs \<noteq> [] \<and> hd cs = CHR ''-'');
         body = (if neg then tl cs else cs);
         ip = takeWhile isDigit body;
         r1 = dropWhile isDigit body;
         hasFrac = (r1 \<noteq> [] \<and> hd r1 = CHR ''.'');
         fp = (if hasFrac then takeWhile isDigit (tl r1) else []);
         r2 = (if hasFrac then dropWhile isDigit (tl r1) else r1);
         hasExp = (r2 \<noteq> [] \<and> (hd r2 = CHR ''e'' \<or> hd r2 = CHR ''E''));
         r3 = (if hasExp then tl r2 else r2);
         hasSign = (hasExp \<and> r3 \<noteq> [] \<and> (hd r3 = CHR ''-'' \<or> hd r3 = CHR ''+''));
         eneg = (hasSign \<and> hd r3 = CHR ''-'');
         r4 = (if hasSign then tl r3 else r3);
         ep = (if hasExp then takeWhile isDigit r4 else []);
         r5 = (if hasExp then dropWhile isDigit r4 else r4);
         mantissa = (of_nat (digitsValue ip) + of_nat (digitsValue fp) / 10 ^ length fp :: rat);
         scaled = (if eneg then mantissa / 10 ^ digitsValue ep else mantissa * 10 ^ digitsValue ep)
     in if ip = [] then None
        else if 1 < length ip \<and> hd ip = CHR ''0'' then None
        else if hasFrac \<and> fp = [] then None
        else if hasExp \<and> ep = [] then None
        else if r5 = [] then Some (if neg then - scaled else scaled)
        else None)"

definition lexIdle :: "char \<Rightarrow> (token list \<times> lexstate) option" where
  "lexIdle c =
    (if isJsonWhitespace c then Some ([], LIdle)
     else if c = CHR ''{'' then Some ([TLBrace], LIdle)
     else if c = CHR ''}'' then Some ([TRBrace], LIdle)
     else if c = CHR ''['' then Some ([TLBracket], LIdle)
     else if c = CHR '']'' then Some ([TRBracket], LIdle)
     else if c = CHR '':'' then Some ([TColon], LIdle)
     else if c = CHR '','' then Some ([TComma], LIdle)
     else if c = dquote then Some ([], LString [])
     else if c = CHR ''-'' \<or> isDigit c then Some ([], LNumber [c])
     else if c = CHR ''t'' then Some ([], LLiteral ''rue'' TTrue)
     else if c = CHR ''f'' then Some ([], LLiteral ''alse'' TFalse)
     else if c = CHR ''n'' then Some ([], LLiteral ''ull'' TNull)
     else None)"

definition lexEscape :: "string \<Rightarrow> char \<Rightarrow> (token list \<times> lexstate) option" where
  "lexEscape acc c =
    (if c = dquote \<or> c = backslash \<or> c = CHR ''/'' then Some ([], LString (acc @ [c]))
     else if c = CHR ''b'' then Some ([], LString (acc @ [CHR 0x08]))
     else if c = CHR ''f'' then Some ([], LString (acc @ [CHR 0x0C]))
     else if c = CHR ''n'' then Some ([], LString (acc @ [CHR 0x0A]))
     else if c = CHR ''r'' then Some ([], LString (acc @ [CHR 0x0D]))
     else if c = CHR ''t'' then Some ([], LString (acc @ [CHR 0x09]))
     else if c = CHR ''u'' then Some ([], LUnicode acc [])
     else None)"

definition lexStep :: "lexstate \<Rightarrow> char \<Rightarrow> (token list \<times> lexstate) option" where
  "lexStep st c =
    (case st of
       LIdle \<Rightarrow> lexIdle c
     | LString acc \<Rightarrow>
         (if c = dquote then Some ([TString acc], LIdle)
          else if c = backslash then Some ([], LEscape acc)
          else if (of_char c :: nat) < 32 then None
          else Some ([], LString (acc @ [c])))
     | LEscape acc \<Rightarrow> lexEscape acc c
     | LUnicode acc hs \<Rightarrow>
         (case hexVal c of
            None \<Rightarrow> None
          | Some v \<Rightarrow>
              if length hs < 3 then Some ([], LUnicode acc (hs @ [c]))
              else if hexValue (hs @ [c]) < 256
                then Some ([], LString (acc @ [char_of (hexValue (hs @ [c]))]))
              else None)
     | LNumber cs \<Rightarrow>
         (if isNumberChar c then Some ([], LNumber (cs @ [c]))
          else (case numberOfLiteral cs of
                  None \<Rightarrow> None
                | Some q \<Rightarrow>
                    (case lexIdle c of
                       None \<Rightarrow> None
                     | Some (toks, st') \<Rightarrow> Some (TNumber q # toks, st'))))
     | LLiteral pending tok \<Rightarrow>
         (case pending of
            [] \<Rightarrow> None
          | x # xs \<Rightarrow>
              if c \<noteq> x then None
              else if xs = [] then Some ([tok], LIdle)
              else Some ([], LLiteral xs tok)))"

fun lexJson :: "lexstate \<Rightarrow> string \<Rightarrow> token list option" where
  "lexJson st [] =
     (case st of
        LIdle \<Rightarrow> Some []
      | LNumber cs \<Rightarrow> (case numberOfLiteral cs of None \<Rightarrow> None | Some q \<Rightarrow> Some [TNumber q])
      | _ \<Rightarrow> None)"
| "lexJson st (c # s) =
     (case lexStep st c of
        None \<Rightarrow> None
      | Some (toks, st') \<Rightarrow>
          (case lexJson st' s of None \<Rightarrow> None | Some rest \<Rightarrow> Some (toks @ rest)))"

text \<open>
  The parser keeps the containers that are still open on a stack; a frame holds the
  elements or members read so far, and for a member whose value is being read, its key.
\<close>

datatype frame =
    FArray "jsvalue list"
  | FObject "(string \<times> jsvalue) list"
  | FMember "(string \<times> jsvalue) list" string

datatype pstate =
    PValue
  | PArrayStart
  | PObjectStart
  | PKey
  | PColon string
  | PAfter jsvalue

fun scalarOf :: "token \<Rightarrow> jsvalue option" where
  "scalarOf (TString s) = Some (JString s)"
| "scalarOf (TNumber q) = Some (JNumber (Finite q))"
| "scalarOf TTrue = Some (JBoolean True)"
| "scalarOf TFalse = Some (JBoolean False)"
| "scalarOf TNull = Some JNull"
| "scalarOf _ = None"

definition startValue :: "frame list \<Rightarrow> token \<Rightarrow> (pstate \<times> frame list) option" where
  "startValue stack t =
    (if t = TLBracket then Some (PArrayStart, FArray [] # stack)
     else if t = TLBrace then Some (PObjectStart, FObject [] # stack)
     else map_option (\<lambda>v. (PAfter v, stack)) (scalarOf t))"

definition startMember :: "frame list \<Rightarrow> token \<Rightarrow> (pstate \<times> frame list) option" where
  "startMember stack t =
    (case t of
       TString k \<Rightarrow>
         (case stack of
            FObject ms # rest \<Rightarrow> Some (PColon k, FMember ms k # rest)
          | _ \<Rightarrow> None)
     | _ \<Rightarrow> None)"

definition afterValue :: "jsvalue \<Rightarrow> frame list \<Rightarrow> token \<Rightarrow> (pstate \<times> frame list) option" where
  "afterValue v stack t =
    (case stack of
       FArray xs # rest \<Rightarrow>
         (if t = TComma then Some (PValue, FArray (xs @ [v]) # rest)
          else if t = TRBracket then Some (PAfter (JArray (xs @ [v])), rest)
          else None)
     | FMember ms k # rest \<Rightarrow>
         (if t = TComma then Some (PKey, FObject (ms @ [(k, v)]) # rest)
          else if t = TRBrace then Some (PAfter (JObject (ms @ [(k, v)])), rest)
          else None)
     | _ \<Rightarrow> None)"

fun parseStep :: "pstate \<Rightarrow> frame list \<Rightarrow> token \<Rightarrow> (pstate \<times> frame list) option" where
  "parseStep PValue stack t = startValue stack t"
| "parseStep PArrayStart stack t =
     (if t = TRBracket then Some (PAfter (JArray []), tl stack) else startValue stack t)"
| "parseStep PObjectStart stack t =
     (if t = TRBrace then Some (PAfter (JObject []), tl stack) else startMember stack t)"
| "parseStep PKey stack t = startMember stack t"
| "parseStep (PColon k) stack t = (if t = TColon then Some (PValue, stack) else None)"
| "parseStep (PAfter v) stack t = afterValue v stack t"

fun parseTokens :: "pstate \<Rightarrow> frame list \<Rightarrow> token list \<Rightarrow> jsvalue option" where
  "parseTokens st stack [] =
     (case st of PAfter v \<Rightarrow> (if stack = [] then Some v else None) | _ \<Rightarrow> None)"
| "parseTokens st stack (t # ts) =
     (case parseStep st stack t of
        None \<Rightarrow> None
      | Some (st', stack') \<Rightarrow> parseTokens st' stack' ts)"

definition jsonParse :: "string \<Rightarrow> jsvalue option" where
  "jsonParse s =
    (case lexJson LIdle s of None \<Rightarrow> None | Some toks \<Rightarrow> parseTokens PValue [] toks)"

text \<open>
  A text that parses to a string is longer than that string: the recursion of
  \<open>parseTaskCustomRecurrenceRule\<close> on the parsed value ends.
\<close>

fun tokenWeight :: "token \<Rightarrow> nat" where
  "tokenWeight (TString t) = length t + 2"
| "tokenWeight _ = 0"

fun lexWeight :: "lexstate \<Rightarrow> nat" where
  "lexWeight (LString acc) = length acc + 1"
| "lexWeight (LEscape acc) = length acc + 1"
| "lexWeight (LUnicode acc hs) = length acc + 1"
| "lexWeight (LLiteral pending tok) = tokenWeight tok"
| "lexWeight _ = 0"

lemma lexIdle_weight_aux:
  "(case lexIdle c of None \<Rightarrow> True
    | Some (toks, st') \<Rightarrow> sum_list (map tokenWeight toks) + lexWeight st' \<le> 1)"
  by (simp add: lexIdle_def)

lemma lexIdle_weight:
  "lexIdle c = Some (toks, st') \<Longrightarrow> sum_list (map tokenWeight toks) + lexWeight st' \<le> 1"
  using lexIdle_weight_aux [of c] by simp

lemma lexEscape_weight_aux:
  "(case lexEscape acc c of None \<Rightarrow> True
    | Some (toks, st') \<Rightarrow> sum_list (map tokenWeight toks) + lexWeight st' \<le> length acc + 2)"
  by (simp add: lexEscape_def)

lemma lexEscape_weight:
  "lexEscape acc c = Some (toks, st') \<Longrightarrow>
     sum_list (map tokenWeight toks) + lexWeight st' \<le> length acc + 2"
  using lexEscape_weight_aux [of acc c] by simp

lemma lexStep_weight:
  assumes a: "lexStep st c = Some (toks, st')"
  shows "sum_list (map tokenWeight toks) + lexWeight st' \<le> lexWeight st + 1"
proof (cases st)
  case LIdle
  with a show ?thesis using lexIdle_weight [of c toks st'] by (simp add: lexStep_def)
next
  case (LNumber cs)
  show ?thesis
  proof (cases "isNumberChar c")
    case True
    with a LNumber show ?thesis by (auto simp: lexStep_def)
  next
    case False
    with a LNumber obtain q toks0 where "lexIdle c = Some (toks0, st')" "toks = TNumber q # toks0"
      by (auto simp: lexStep_def split: option.splits)
    then show ?thesis using lexIdle_weight [of c toks0 st'] LNumber by simp
  qed
next
  case (LString acc)
  with a show ?thesis by (auto simp: lexStep_def split: if_splits)
next
  case (LEscape acc)
  with a show ?thesis using lexEscape_weight [of acc c toks st'] by (simp add: lexStep_def)
next
  case (LUnicode acc hs)
  with a show ?thesis by (auto simp: lexStep_def split: if_splits option.splits)
next
  case (LLiteral pending tok)
  with a show ?thesis by (auto simp: lexStep_def split: if_splits list.splits)
qed

lemma lexJson_weight:
  "lexJson st s = Some toks \<Longrightarrow> sum_list (map tokenWeight toks) \<le> lexWeight st + length s"
proof (induction s arbitrary: st toks)
  case Nil
  then show ?case by (cases st) (auto split: option.splits)
next
  case (Cons c s)
  from Cons.prems obtain t1 st' t2 where
    st: "lexStep st c = Some (t1, st')" and r: "lexJson st' s = Some t2" and e: "toks = t1 @ t2"
    by (auto split: option.splits)
  from lexStep_weight [OF st] Cons.IH [OF r] e show ?case by simp
qed

lemma scalarOf_string: "scalarOf t = Some (JString x) \<Longrightarrow> t = TString x"
  by (cases t) auto

lemma startValue_string:
  "startValue stack t = Some (PAfter (JString x), stack') \<Longrightarrow> t = TString x"
  by (auto simp: startValue_def split: if_splits dest: scalarOf_string)

lemma startMember_not_after: "startMember stack t \<noteq> Some (PAfter v, stack')"
  by (auto simp: startMember_def split: token.splits list.splits frame.splits)

lemma afterValue_not_string: "afterValue v stack t \<noteq> Some (PAfter (JString x), stack')"
  by (auto simp: afterValue_def split: list.splits frame.splits)

lemma parseStep_string:
  "parseStep st stack t = Some (PAfter (JString x), stack') \<Longrightarrow> t = TString x"
  by (cases st)
     (auto simp: startMember_not_after afterValue_not_string split: if_splits
           dest: startValue_string)

lemma parseTokens_string:
  "parseTokens st stack ts = Some (JString x) \<Longrightarrow> TString x \<in> set ts \<or> st = PAfter (JString x)"
proof (induction ts arbitrary: st stack)
  case Nil
  then show ?case by (auto split: pstate.splits if_splits)
next
  case (Cons t ts)
  from Cons.prems obtain st' stack' where
    s: "parseStep st stack t = Some (st', stack')" and r: "parseTokens st' stack' ts = Some (JString x)"
    by (auto split: option.splits)
  from Cons.IH [OF r] show ?case
  proof
    assume "TString x \<in> set ts" then show ?thesis by simp
  next
    assume "st' = PAfter (JString x)"
    with s have "t = TString x" using parseStep_string by blast
    then show ?thesis by simp
  qed
qed

lemma tokenWeight_le_sum: "t \<in> set ts \<Longrightarrow> tokenWeight t \<le> sum_list (map tokenWeight ts)"
  by (induction ts) auto

lemma jsonParse_string_shorter:
  assumes "jsonParse s = Some (JString x)"
  shows "length x < length s"
proof -
  from assms obtain toks where l: "lexJson LIdle s = Some toks"
    and p: "parseTokens PValue [] toks = Some (JString x)"
    by (auto simp: jsonParse_def split: option.splits)
  from parseTokens_string [OF p] have "TString x \<in> set toks" by simp
  from tokenWeight_le_sum [OF this] lexJson_weight [OF l] show ?thesis by simp
qed

section \<open>Recurrence rules\<close>

datatype TaskRecurrenceType = RNone | Daily | Weekly | Monthly | Custom

datatype TaskRecurrenceBehavior = AfterCompletion | DuplicateOnSchedule

datatype TaskCustomRecurrenceUnit = UnitDay | UnitWeek | UnitMonth

record TaskCustomRecurrenceRule =
  interval :: int
  unit :: TaskCustomRecurrenceUnit

fun unitName :: "TaskCustomRecurrenceUnit \<Rightarrow> string" where
  "unitName UnitDay = ''day''"
| "unitName UnitWeek = ''week''"
| "unitName UnitMonth = ''month''"

text \<open>\<open>TASK_CUSTOM_RECURRENCE_UNITS.includes(unitRaw)\<close>, with the unit found.\<close>

definition unitOfString :: "string \<Rightarrow> TaskCustomRecurrenceUnit option" where
  "unitOfString s =
    (if s = ''day'' then Some UnitDay
     else if s = ''week'' then Some UnitWeek
     else if s = ''month'' then Some UnitMonth
     else None)"

fun isObject :: "jsvalue \<Rightarrow> bool" where
  "isObject (JObject ms) = True"
| "isObject (JArray xs) = True"
| "isObject _ = False"

text \<open>
  Reading a property by name: the last member of that name wins; an array has no
  property named \<open>interval\<close> or \<open>unit\<close>.
\<close>

fun getProperty :: "jsvalue \<Rightarrow> string \<Rightarrow> jsvalue" where
  "getProperty (JObject ms) k = (case map_of (rev ms) k of Some v \<Rightarrow> v | None \<Rightarrow> JUndefined)"
| "getProperty _ k = JUndefined"

fun numberIsInteger :: "jsvalue \<Rightarrow> bool" where
  "numberIsInteger (JNumber (Finite q)) = (of_int \<lfloor>q\<rfloor> = q)"
| "numberIsInteger _ = False"

fun asNumber :: "jsvalue \<Rightarrow> rat" where
  "asNumber (JNumber (Finite q)) = q"
| "asNumber _ = 0"

text \<open>The part of \<open>parseTaskCustomRecurrenceRule\<close> after the string case.\<close>

definition parseRuleObject :: "jsvalue \<Rightarrow> TaskCustomRecurrenceRule option" where
  "parseRuleObject v =
    (if \<not> isObject v then None
     else let intervalRaw = getProperty v ''interval''; unitRaw = getProperty v ''unit'' in
       if \<not> numberIsInteger intervalRaw then None
       else if asNumber intervalRaw < 1 then None
       else if asNumber intervalRaw > 365 then None
       else (case unitRaw of
               JString u \<Rightarrow>
                 (case unitOfString u of
                    None \<Rightarrow> None
                  | Some un \<Rightarrow> Some \<lparr>interval = \<lfloor>asNumber intervalRaw\<rfloor>, unit = un\<rparr>)
             | _ \<Rightarrow> None))"

function parseTaskCustomRecurrenceRule :: "jsvalue \<Rightarrow> TaskCustomRecurrenceRule option" where
  "parseTaskCustomRecurrenceRule v =
    (case v of
       JString s \<Rightarrow>
         (case jsonParse s of
            None \<Rightarrow> None
          | Some parsed \<Rightarrow> parseTaskCustomRecurrenceRule parsed)
     | _ \<Rightarrow> parseRuleObject v)"
  by pat_completeness auto
termination
proof (relation "measure (\<lambda>v. case v of JString s \<Rightarrow> Suc (length s) | _ \<Rightarrow> 0)")
  show "wf (measure (\<lambda>v. case v of JString s \<Rightarrow> Suc (length s) | _ \<Rightarrow> 0))"
    by simp
next
  fix v s parsed
  assume "v = JString s" and "jsonParse s = Some parsed"
  then show "(parsed, v) \<in> measure (\<lambda>v. case v of JString s \<Rightarrow> Suc (length s) | _ \<Rightarrow> 0)"
    using jsonParse_string_shorter [of s] by (cases parsed) auto
qed

declare parseTaskCustomRecurrenceRule.simps [simp del]

text \<open>
  \<open>JSON.stringify\<close> of a rule: the two property names and the unit are plain
  letters, which need no escape, and the interval of a parsed rule is an integer that
  prints as its decimal numeral.
\<close>

definition quote :: "string \<Rightarrow> string" where
  "quote s = dquote # s @ [dquote]"

definition serializeTaskCustomRecurrenceRule :: "TaskCustomRecurrenceRule \<Rightarrow> string" where
  "serializeTaskCustomRecurrenceRule rule =
     ''{'' @ quote ''interval'' @ '':'' @ intToString (interval rule) @ '','' @
     quote ''unit'' @ '':'' @ quote (unitName (unit rule)) @ ''}''"

definition getResolvedTaskRecurrenceRule ::
    "TaskRecurrenceType \<Rightarrow> jsvalue \<Rightarrow> TaskCustomRecurrenceRule option" where
  "getResolvedTaskRecurrenceRule recurrenceType recurrenceRule =
    (if recurrenceType = RNone then None
     else if recurrenceType = Daily then Some \<lparr>interval = 1, unit = UnitDay\<rparr>
     else if recurrenceType = Weekly then Some \<lparr>interval = 1, unit = UnitWeek\<rparr>
     else if recurrenceType = Monthly then Some \<lparr>interval = 1, unit = UnitMonth\<rparr>
     else parseTaskCustomRecurrenceRule recurrenceRule)"

section \<open>Calendar dates\<close>

text \<open>
  A \<open>Date\<close> at midnight UTC is modelled by its UTC calendar fields: the year, the
  month from 0 to 11 and the day of the month, as \<open>getUTCFullYear\<close>,
  \<open>getUTCMonth\<close> and \<open>getUTCDate\<close> read them.  Setting a field renormalises the
  date as ECMAScript's MakeDay does: months beyond 0..11 carry into the year, days beyond
  the month carry into the neighbouring months.  Time values beyond 100,000,000 days from
  the epoch are outside the model.
\<close>

record Date =
  utcFullYear :: int
  utcMonth :: int
  utcDate :: int

definition isLeapYear :: "int \<Rightarrow> bool" where
  "isLeapYear y = (if y mod 400 = 0 then True else if y mod 100 = 0 then False else y mod 4 = 0)"

definition daysInMonth :: "int \<Rightarrow> int \<Rightarrow> int" where
  "daysInMonth y m =
    (if m = 1 then (if isLeapYear y then 29 else 28)
     else if m = 3 \<or> m = 5 \<or> m = 8 \<or> m = 10 then 30
     else 31)"

definition previousMonth :: "int \<times> int \<Rightarrow> int \<times> int" where
  "previousMonth ym = (if snd ym = 0 then (fst ym - 1, 11) else (fst ym, snd ym - 1))"

definition followingMonth :: "int \<times> int \<Rightarrow> int \<times> int" where
  "followingMonth ym = (if snd ym = 11 then (fst ym + 1, 0) else (fst ym, snd ym + 1))"

function normalizeDay :: "int \<times> int \<Rightarrow> int \<Rightarrow> Date" where
  "normalizeDay ym d =
    (if d < 1 then
       normalizeDay (previousMonth ym)
         (d + daysInMonth (fst (previousMonth ym)) (snd (previousMonth ym)))
     else if daysInMonth (fst ym) (snd ym) < d then
       normalizeDay (followingMonth ym) (d - daysInMonth (fst ym) (snd ym))
     else \<lparr>utcFullYear = fst ym, utcMonth = snd ym, utcDate = d\<rparr>)"
  by pat_completeness auto
termination
proof (relation "measures [\<lambda>(ym, d). if d < 1 then 1 else 0,
                           \<lambda>(ym, d). if d < 1 then nat (1 - d) else nat d]")
  show "wf (measures [\<lambda>(ym, d). if d < (1::int) then 1 else (0::nat),
                      \<lambda>(ym, d). if d < 1 then nat (1 - d) else nat d])"
    by simp
next
  fix ym :: "int \<times> int" and d :: int
  assume "d < 1"
  moreover have "28 \<le> daysInMonth (fst (previousMonth ym)) (snd (previousMonth ym))"
    by (simp add: daysInMonth_def)
  ultimately show "((previousMonth ym,
           d + daysInMonth (fst (previousMonth ym)) (snd (previousMonth ym))), ym, d)
         \<in> measures [\<lambda>(ym, d). if d < 1 then 1 else 0,
                       \<lambda>(ym, d). if d < 1 then nat (1 - d) else nat d]"
    by auto
next
  fix ym :: "int \<times> int" and d :: int
  assume "\<not> d < 1" and "daysInMonth (fst ym) (snd ym) < d"
  moreover have "28 \<le> daysInMonth (fst ym) (snd ym)"
    by (simp add: daysInMonth_def)
  ultimately show "((followingMonth ym, d - daysInMonth (fst ym) (snd ym)), ym, d)
         \<in> measures [\<lambda>(ym, d). if d < 1 then 1 else 0,
                       \<lambda>(ym, d). if d < 1 then nat (1 - d) else nat d]"
    by auto
qed

declare normalizeDay.simps [simp del]

text \<open>The date with the given year, month and day fields, each of any size.\<close>

definition makeDate :: "int \<Rightarrow> int \<Rightarrow> int \<Rightarrow> Date" where
  "makeDate y m d = normalizeDay (y + m div 12, m mod 12) d"

definition setUTCDate :: "Date \<Rightarrow> int \<Rightarrow> Date" where
  "setUTCDate date d = makeDate (utcFullYear date) (utcMonth date) d"

definition setUTCMonth :: "Date \<Rightarrow> int \<Rightarrow> Date" where
  "setUTCMonth date m = makeDate (utcFullYear date) m (utcDate date)"

text \<open>
  \<open>new Date(Date.UTC(year, month, day))\<close>: a year from 0 to 99 stands for the year
  1900 later.
\<close>

definition newDateUTC :: "int \<Rightarrow> int \<Rightarrow> int \<Rightarrow> Date" where
  "newDateUTC y m d = makeDate (if 0 \<le> y \<and> y \<le> 99 then 1900 + y else y) m d"

text \<open>The day number of a date (days since 1 January 1970) and its weekday.\<close>

definition dayFromYear :: "int \<Rightarrow> int" where
  "dayFromYear y =
     365 * (y - 1970) + (y - 1969) div 4 - (y - 1901) div 100 + (y - 1601) div 400"

definition dayNumber :: "Date \<Rightarrow> int" where
  "dayNumber date =
     dayFromYear (utcFullYear date)
     + sum_list (map (daysInMonth (utcFullYear date)) [0 ..< nat (utcMonth date)])
     + utcDate date - 1"

definition getTime :: "Date \<Rightarrow> int" where
  "getTime date = dayNumber date * 86400000"

definition getUTCDay :: "Date \<Rightarrow> int" where
  "getUTCDay date = (dayNumber date + 4) mod 7"

text \<open>
  \<open>toISOString\<close>: a year from 0 to 9999 prints with four digits, any other year
  with a sign and six digits.
\<close>

definition isoYear :: "int \<Rightarrow> string" where
  "isoYear y =
    (if 0 \<le> y \<and> y \<le> 9999 then padStart 4 CHR ''0'' (digitsOf (nat y))
     else (if y < 0 then ''-'' else ''+'') @ padStart 6 CHR ''0'' (digitsOf (nat \<bar>y\<bar>)))"

definition toISOString :: "Date \<Rightarrow> string" where
  "toISOString date =
     isoYear (utcFullYear date) @ ''-'' @
     padStart 2 CHR ''0'' (digitsOf (nat (utcMonth date + 1))) @ ''-'' @
     padStart 2 CHR ''0'' (digitsOf (nat (utcDate date))) @ ''T00:00:00.000Z''"

section \<open>The recurrence calculator\<close>

text \<open>The pattern \<open>/^\\d{4}-\\d{2}-\\d{2}$/\<close>.\<close>

fun isIsoDate :: "string \<Rightarrow> bool" where
  "isIsoDate [y1, y2, y3, y4, s1, m1, m2, s2, d1, d2] =
     (isDigit y1 \<and> isDigit y2 \<and> isDigit y3 \<and> isDigit y4 \<and> s1 = CHR ''-'' \<and>
      isDigit m1 \<and> isDigit m2 \<and> s2 = CHR ''-'' \<and> isDigit d1 \<and> isDigit d2)"
| "isIsoDate _ = False"

text \<open>
  \<open>new Date(value + "T00:00:00.000Z")\<close> for a value of that pattern: \<open>None\<close> is
  the invalid date.  The engine accepts the months 1 to 12 and the days 1 to 31 and lets
  a day beyond the month roll over; \<open>parseIsoDate\<close> then rejects the rolled date by
  comparing its text with the input.
\<close>

definition newDateFromIso :: "string \<Rightarrow> Date option" where
  "newDateFromIso v =
    (let y = int (digitsValue (take 4 v));
         m = int (digitsValue (take 2 (drop 5 v)));
         d = int (digitsValue (take 2 (drop 8 v)))
     in if m < 1 \<or> 12 < m \<or> d < 1 \<or> 31 < d then None else Some (makeDate y (m - 1) d))"

definition toIsoDate :: "Date \<Rightarrow> string" where
  "toIsoDate date = take 10 (toISOString date)"

definition parseIsoDate :: "string \<Rightarrow> Date option" where
  "parseIsoDate v =
    (if \<not> isIsoDate v then None
     else (case newDateFromIso v of
             None \<Rightarrow> None
           | Some date \<Rightarrow> if take 10 (toISOString date) = v then Some date else None))"

text \<open>
  What it is for a text to denote a real calendar date: it has the pattern, its month is
  one of the twelve and its day is a day of that month in that year.
\<close>

definition isoYearOf :: "string \<Rightarrow> int" where
  "isoYearOf v = int (digitsValue (take 4 v))"

definition isoMonthOf :: "string \<Rightarrow> int" where
  "isoMonthOf v = int (digitsValue (take 2 (drop 5 v)))"

definition isoDayOf :: "string \<Rightarrow> int" where
  "isoDayOf v = int (digitsValue (take 2 (drop 8 v)))"

definition isRealCalendarDate :: "string \<Rightarrow> bool" where
  "isRealCalendarDate v =
    (isIsoDate v \<and> 1 \<le> isoMonthOf v \<and> isoMonthOf v \<le> 12 \<and> 1 \<le> isoDayOf v \<and>
     isoDayOf v \<le> daysInMonth (isoYearOf v) (isoMonthOf v - 1))"

definition addMonthsClamped :: "Date \<Rightarrow> int \<Rightarrow> Date" where
  "addMonthsClamped date amount =
    (let originalDay = utcDate date;
         next1 = setUTCDate date 1;
         next2 = setUTCMonth next1 (utcMonth next1 + amount);
         lastDay = utcDate (newDateUTC (utcFullYear next2) (utcMonth next2 + 1) 0)
     in setUTCDate next2 (min originalDay lastDay))"

definition getNextTaskRecurrenceDate ::
    "string \<Rightarrow> TaskRecurrenceType \<Rightarrow> jsvalue \<Rightarrow> string option" where
  "getNextTaskRecurrenceDate anchorIsoDate recurrenceType recurrenceRule =
    (case getResolvedTaskRecurrenceRule recurrenceType recurrenceRule of
       None \<Rightarrow> None
     | Some resolvedRule \<Rightarrow>
         (case parseIsoDate anchorIsoDate of
            None \<Rightarrow> None
          | Some anchorDate \<Rightarrow>
              if unit resolvedRule = UnitDay then
                Some (toIsoDate (setUTCDate anchorDate (utcDate anchorDate + interval resolvedRule)))
              else if unit resolvedRule = UnitWeek then
                Some (toIsoDate (setUTCDate anchorDate (utcDate anchorDate + interval resolvedRule * 7)))
              else Some (toIsoDate (addMonthsClamped anchorDate (interval resolvedRule)))))"

text \<open>
  The loop of \<open>getNextTaskRecurrenceOnOrAfter\<close>, with the number of iterations that
  are left; it is entered with 4000.
\<close>

fun recurrenceSearch ::
    "nat \<Rightarrow> Date \<Rightarrow> TaskRecurrenceType \<Rightarrow> jsvalue \<Rightarrow> string \<Rightarrow> string option" where
  "recurrenceSearch 0 target recurrenceType recurrenceRule cursor = None"
| "recurrenceSearch (Suc n) target recurrenceType recurrenceRule cursor =
    (case parseIsoDate cursor of
       None \<Rightarrow> None
     | Some cursorDate \<Rightarrow>
         if getTime target \<le> getTime cursorDate then Some cursor
         else (case getNextTaskRecurrenceDate cursor recurrenceType recurrenceRule of
                 None \<Rightarrow> None
               | Some next \<Rightarrow> recurrenceSearch n target recurrenceType recurrenceRule next))"

definition getNextTaskRecurrenceOnOrAfter ::
    "string \<Rightarrow> TaskRecurrenceType \<Rightarrow> jsvalue \<Rightarrow> string \<Rightarrow> string option" where
  "getNextTaskRecurrenceOnOrAfter anchorIsoDate recurrenceType recurrenceRule onOrAfterIsoDate =
    (case parseIsoDate onOrAfterIsoDate of
       None \<Rightarrow> None
     | Some target \<Rightarrow> recurrenceSearch 4000 target recurrenceType recurrenceRule anchorIsoDate)"

text \<open>
  The search in the words of its description: the cursors are the anchor and what
  \<open>nextOccurrence\<close> makes of it, step after step; the search is over at the first
  cursor that is a date on or after the target, all cursors before it being dates before
  the target.
\<close>

fun advance :: "nat \<Rightarrow> TaskRecurrenceType \<Rightarrow> jsvalue \<Rightarrow> string \<Rightarrow> string option" where
  "advance 0 recurrenceType recurrenceRule cursor = Some cursor"
| "advance (Suc k) recurrenceType recurrenceRule cursor =
    (case getNextTaskRecurrenceDate cursor recurrenceType recurrenceRule of
       None \<Rightarrow> None
     | Some next \<Rightarrow> advance k recurrenceType recurrenceRule next)"

definition onOrAfter :: "Date \<Rightarrow> string \<Rightarrow> bool" where
  "onOrAfter target cursor =
    (case parseIsoDate cursor of None \<Rightarrow> False | Some d \<Rightarrow> getTime target \<le> getTime d)"

definition isBefore :: "Date \<Rightarrow> string \<Rightarrow> bool" where
  "isBefore target cursor =
    (case parseIsoDate cursor of None \<Rightarrow> False | Some d \<Rightarrow> getTime d < getTime target)"

definition reachedAtStep ::
    "nat \<Rightarrow> Date \<Rightarrow> TaskRecurrenceType \<Rightarrow> jsvalue \<Rightarrow> string \<Rightarrow> string \<Rightarrow> bool" where
  "reachedAtStep k target recurrenceType recurrenceRule anchor cursor =
    (advance k recurrenceType recurrenceRule anchor = Some cursor \<and> onOrAfter target cursor \<and>
     list_all
       (\<lambda>j. case advance j recurrenceType recurrenceRule anchor of
              None \<Rightarrow> False
            | Some earlier \<Rightarrow> isBefore target earlier)
       [0 ..< k])"

section \<open>Task writes\<close>

text \<open>
  The recurrence columns of a stored task, and the three handlers that write them: the
  tools \<open>create-task\<close> and \<open>update-task\<close> and the route \<open>PUT /api/tasks/[id]\<close>.
  The checks on the title, the project and the other columns do not touch these columns
  and are left out.  An argument that may be absent is an option; \<open>null\<close> is
  \<open>JNull\<close> for a rule and \<open>None\<close> for a due date that is present.
\<close>

record TaskRecurrence =
  dueDate :: "string option"
  recurrenceType :: TaskRecurrenceType
  recurrenceBehavior :: TaskRecurrenceBehavior
  recurrenceRule :: "string option"

text \<open>\<open>String.prototype.trim\<close> on code units below 256.\<close>

definition isJsWhitespace :: "char \<Rightarrow> bool" where
  "isJsWhitespace c =
    (c = CHR 0x09 \<or> c = CHR 0x0A \<or> c = CHR 0x0B \<or> c = CHR 0x0C \<or> c = CHR 0x0D \<or>
     c = CHR 0x20 \<or> c = CHR 0xA0)"

definition trim :: "string \<Rightarrow> string" where
  "trim s = rev (dropWhile isJsWhitespace (rev (dropWhile isJsWhitespace s)))"

record CreateTaskArgs =
  createDueDate :: "string option"
  createRecurrenceType :: "TaskRecurrenceType option"
  createRecurrenceBehavior :: "TaskRecurrenceBehavior option"
  createRecurrenceRule :: "jsvalue option"

definition createTask :: "CreateTaskArgs \<Rightarrow> string + TaskRecurrence" where
  "createTask args =
    (let recurrenceType = (case createRecurrenceType args of None \<Rightarrow> RNone | Some ty \<Rightarrow> ty);
         recurrenceBehavior =
           (if recurrenceType = RNone then AfterCompletion
            else (case createRecurrenceBehavior args of None \<Rightarrow> AfterCompletion | Some b \<Rightarrow> b));
         ruleGiven = (case createRecurrenceRule args of None \<Rightarrow> JUndefined | Some v \<Rightarrow> v);
         dueDateMissing =
           (case createDueDate args of None \<Rightarrow> True | Some d \<Rightarrow> d = [] \<or> length (trim d) = 0)
     in if recurrenceType = Custom \<and> parseTaskCustomRecurrenceRule ruleGiven = None then
          Inl ''Custom recurrence requires recurrenceRule with interval (1-365) and unit (day|week|month).''
        else if recurrenceType \<noteq> Custom \<and> ruleGiven \<noteq> JUndefined \<and> ruleGiven \<noteq> JNull then
          Inl ''recurrenceRule can only be set when recurrenceType is custom.''
        else if recurrenceType \<noteq> RNone \<and> recurrenceBehavior = DuplicateOnSchedule \<and> dueDateMissing then
          Inl ''dueDate is required when recurrenceBehavior is duplicate_on_schedule.''
        else Inr \<lparr>dueDate = createDueDate args,
                  recurrenceType = recurrenceType,
                  recurrenceBehavior = recurrenceBehavior,
                  recurrenceRule =
                    (if recurrenceType = Custom
                     then map_option serializeTaskCustomRecurrenceRule
                            (parseTaskCustomRecurrenceRule ruleGiven)
                     else None)\<rparr>)"

record UpdateTaskArgs =
  updateDueDate :: "string option option"
  updateRecurrenceType :: "TaskRecurrenceType option"
  updateRecurrenceBehavior :: "TaskRecurrenceBehavior option"
  updateRecurrenceRule :: "jsvalue option"

text \<open>
  The rule that both update handlers arrive at before their checks: \<open>Inl\<close> when a rule
  is given and does not parse.
\<close>

definition nextRuleOf :: "string option \<Rightarrow> jsvalue option \<Rightarrow> unit + string option" where
  "nextRuleOf existingRule given =
    (case given of
       None \<Rightarrow> Inr existingRule
     | Some v \<Rightarrow>
         if v = JNull then Inr None
         else (case parseTaskCustomRecurrenceRule v of
                 None \<Rightarrow> Inl ()
               | Some parsed \<Rightarrow> Inr (Some (serializeTaskCustomRecurrenceRule parsed))))"

definition ruleIsSet :: "jsvalue option \<Rightarrow> bool" where
  "ruleIsSet given = (case given of None \<Rightarrow> False | Some v \<Rightarrow> v \<noteq> JNull \<and> v \<noteq> JUndefined)"

text \<open>A stored rule is falsy when it is null or the empty string.\<close>

definition ruleMissing :: "string option \<Rightarrow> bool" where
  "ruleMissing rule = (case rule of None \<Rightarrow> True | Some text \<Rightarrow> text = [])"

definition updateTask :: "TaskRecurrence \<Rightarrow> UpdateTaskArgs \<Rightarrow> string + TaskRecurrence" where
  "updateTask existing args =
    (let hasRecurrenceType = (updateRecurrenceType args \<noteq> None);
         hasRecurrenceBehavior = (updateRecurrenceBehavior args \<noteq> None);
         hasRecurrenceRule = (updateRecurrenceRule args \<noteq> None);
         nextRecurrenceType =
           (case updateRecurrenceType args of None \<Rightarrow> recurrenceType existing | Some ty \<Rightarrow> ty);
         givenBehavior =
           (case updateRecurrenceBehavior args of
              None \<Rightarrow> recurrenceBehavior existing
            | Some b \<Rightarrow> b);
         nextDueDate = (case updateDueDate args of None \<Rightarrow> dueDate existing | Some d \<Rightarrow> d);
         dueDateMissing = (case nextDueDate of None \<Rightarrow> True | Some d \<Rightarrow> d = [])
     in case nextRuleOf (recurrenceRule existing) (updateRecurrenceRule args) of
          Inl _ \<Rightarrow> Inl ''recurrenceRule must include interval (1-365) and unit (day|week|month).''
        | Inr givenRule \<Rightarrow>
            if nextRecurrenceType = Custom \<and> ruleMissing givenRule then
              Inl ''recurrenceRule is required when recurrenceType is custom.''
            else if nextRecurrenceType \<noteq> Custom \<and> ruleIsSet (updateRecurrenceRule args) then
              Inl ''recurrenceRule can only be set when recurrenceType is custom.''
            else if nextRecurrenceType \<noteq> RNone \<and> givenBehavior = DuplicateOnSchedule \<and>
                    dueDateMissing then
              Inl ''dueDate is required when recurrenceBehavior is duplicate_on_schedule.''
            else
              Inr \<lparr>dueDate = nextDueDate,
                   recurrenceType = nextRecurrenceType,
                   recurrenceBehavior =
                     (if hasRecurrenceBehavior \<or> hasRecurrenceType
                      then (if nextRecurrenceType = RNone then AfterCompletion else givenBehavior)
                      else recurrenceBehavior existing),
                   recurrenceRule =
                     (if hasRecurrenceRule \<or> hasRecurrenceType
                      then (if nextRecurrenceType \<noteq> Custom \<and> hasRecurrenceType then None
                            else givenRule)
                      else recurrenceRule existing)\<rparr>)"

record PutTaskBody =
  putDueDate :: "string option option"
  putRecurrenceType :: "TaskRecurrenceType option"
  putRecurrenceRule :: "jsvalue option"

definition putTask :: "TaskRecurrence \<Rightarrow> PutTaskBody \<Rightarrow> string + TaskRecurrence" where
  "putTask existing body =
    (let hasRecurrenceType = (putRecurrenceType body \<noteq> None);
         hasRecurrenceRule = (putRecurrenceRule body \<noteq> None);
         nextRecurrenceType =
           (case putRecurrenceType body of None \<Rightarrow> recurrenceType existing | Some ty \<Rightarrow> ty)
     in case nextRuleOf (recurrenceRule existing) (putRecurrenceRule body) of
          Inl _ \<Rightarrow> Inl ''recurrenceRule must include interval (1-365) and unit (day|week|month)''
        | Inr givenRule \<Rightarrow>
            if nextRecurrenceType = Custom \<and> ruleMissing givenRule then
              Inl ''recurrenceRule is required when recurrenceType is custom''
            else if nextRecurrenceType \<noteq> Custom \<and> ruleIsSet (putRecurrenceRule body) then
              Inl ''recurrenceRule can only be set when recurrenceType is custom''
            else
              Inr \<lparr>dueDate = (case putDueDate body of None \<Rightarrow> dueDate existing | Some d \<Rightarrow> d),
                   recurrenceType = nextRecurrenceType,
                   recurrenceBehavior = recurrenceBehavior existing,
                   recurrenceRule =
                     (if hasRecurrenceRule \<or> hasRecurrenceType
                      then (if nextRecurrenceType \<noteq> Custom \<and> hasRecurrenceType then None
                            else givenRule)
                      else recurrenceRule existing)\<rparr>)"

text \<open>The invariant of the stored columns.\<close>

definition behaviorNormalized :: "TaskRecurrence \<Rightarrow> bool" where
  "behaviorNormalized task =
    (if recurrenceType task = RNone then recurrenceBehavior task = AfterCompletion else True)"

section \<open>Dispatches\<close>







text \<open>
  The rows of the three tables that the dispatch tools read and write.  A table is the
  list of its rows; a query with \<open>limit(1)\<close> gives the first row that matches.
\<close>

datatype TaskStatus = StatusOpen | StatusInProgress | StatusDone

record DispatchRow =
  dispatchRowId :: string
  dispatchUserId :: string
  dispatchDate :: string
  summary :: string
  finalized :: bool
  createdAt :: string
  updatedAt :: string

record TaskRow =
  taskRowId :: string
  taskUserId :: string
  status :: TaskStatus
  deletedAt :: "string option"

record DispatchTaskRow =
  dispatchId :: string
  taskId :: string

record Store =
  dispatches :: "DispatchRow list"
  dispatchTasks :: "DispatchTaskRow list"
  tasks :: "TaskRow list"

datatype DispatchError =
    DispatchNotFound
  | CannotModifyFinalized
  | TaskNotFound
  | AlreadyFinalized

text \<open>
  Modelled from the spec: the \<open>dispatches\<close> table's declaration is not in the sources.
  A row inserted without a summary and without a flag is an open dispatch with an empty
  summary.  The id that the table generates for a new row is the argument \<open>newId\<close>.
\<close>

definition newDispatchRow :: "string \<Rightarrow> string \<Rightarrow> string \<Rightarrow> string \<Rightarrow> DispatchRow" where
  "newDispatchRow newId userId date now =
     \<lparr>dispatchRowId = newId, dispatchUserId = userId, dispatchDate = date, summary = [],
      finalized = False, createdAt = now, updatedAt = now\<rparr>"

definition getOrCreateDispatch ::
    "string \<Rightarrow> string \<Rightarrow> string \<Rightarrow> string \<Rightarrow> Store \<Rightarrow> DispatchRow \<times> Store" where
  "getOrCreateDispatch userId date now newId store =
    (case find (\<lambda>d. dispatchUserId d = userId \<and> dispatchDate d = date) (dispatches store) of
       Some existing \<Rightarrow> (existing, store)
     | None \<Rightarrow>
         (newDispatchRow newId userId date now,
          store\<lparr>dispatches := dispatches store @ [newDispatchRow newId userId date now]\<rparr>))"

definition findDispatch :: "string \<Rightarrow> string \<Rightarrow> Store \<Rightarrow> DispatchRow option" where
  "findDispatch userId ident store =
     find (\<lambda>d. dispatchRowId d = ident \<and> dispatchUserId d = userId) (dispatches store)"

definition isLinked :: "string \<Rightarrow> string \<Rightarrow> Store \<Rightarrow> bool" where
  "isLinked did tid store =
     (find (\<lambda>l. dispatchId l = did \<and> taskId l = tid) (dispatchTasks store) \<noteq> None)"

text \<open>The select and the conditional insert that link one task to one dispatch.\<close>

definition insertLink :: "string \<Rightarrow> string \<Rightarrow> Store \<Rightarrow> Store" where
  "insertLink did tid store =
    (if isLinked did tid store then store
     else store\<lparr>dispatchTasks := dispatchTasks store @ [\<lparr>dispatchId = did, taskId = tid\<rparr>]\<rparr>)"

definition linkTask ::
    "string \<Rightarrow> string \<Rightarrow> string \<Rightarrow> Store \<Rightarrow> (DispatchError + string \<times> string) \<times> Store" where
  "linkTask userId did tid store =
    (case findDispatch userId did store of
       None \<Rightarrow> (Inl DispatchNotFound, store)
     | Some dispatch \<Rightarrow>
         if finalized dispatch then (Inl CannotModifyFinalized, store)
         else (case find (\<lambda>t. taskRowId t = tid \<and> taskUserId t = userId \<and> deletedAt t = None)
                      (tasks store) of
                 None \<Rightarrow> (Inl TaskNotFound, store)
               | Some task \<Rightarrow>
                   (Inr (dispatchRowId dispatch, taskRowId task),
                    insertLink (dispatchRowId dispatch) (taskRowId task) store)))"

definition unlinkTask ::
    "string \<Rightarrow> string \<Rightarrow> string \<Rightarrow> Store \<Rightarrow> (DispatchError + string \<times> string) \<times> Store" where
  "unlinkTask userId did tid store =
    (case findDispatch userId did store of
       None \<Rightarrow> (Inl DispatchNotFound, store)
     | Some dispatch \<Rightarrow>
         if finalized dispatch then (Inl CannotModifyFinalized, store)
         else (Inr (dispatchRowId dispatch, tid),
               store\<lparr>dispatchTasks :=
                 filter (\<lambda>l. \<not> (dispatchId l = dispatchRowId dispatch \<and> taskId l = tid))
                   (dispatchTasks store)\<rparr>))"






text \<open>A store with one open dispatch and three linked tasks, one of them done.\<close>

definition exampleStore :: Store where
  "exampleStore =
    \<lparr>dispatches =
       [\<lparr>dispatchRowId = ''d1'', dispatchUserId = ''u1'', dispatchDate = ''2026-02-21'',
         summary = [], finalized = False, createdAt = ''t0'', updatedAt = ''t0''\<rparr>],
     dispatchTasks =
       [\<lparr>dispatchId = ''d1'', taskId = ''a''\<rparr>, \<lparr>dispatchId = ''d1'', taskId = ''b''\<rparr>,
        \<lparr>dispatchId = ''d1'', taskId = ''c''\<rparr>],
     tasks =
       [\<lparr>taskRowId = ''a'', taskUserId = ''u1'', status = StatusDone, deletedAt = None\<rparr>,
        \<lparr>taskRowId = ''b'', taskUserId = ''u1'', status = StatusOpen, deletedAt = None\<rparr>,
        \<lparr>taskRowId = ''c'', taskUserId = ''u1'', status = StatusInProgress, deletedAt = None\<rparr>]\<rparr>"

section \<open>Properties\<close>

subsection \<open>Decimal numerals\<close>

lemma digitChar_props:
  assumes "k < 10"
  shows "isDigit (digitChar k)" and "digitVal (digitChar k) = k"
    and "(digitChar k = CHR ''0'') = (k = 0)"
proof -
  from assms have "k = 0 \<or> k = 1 \<or> k = 2 \<or> k = 3 \<or> k = 4 \<or> k = 5 \<or> k = 6 \<or> k = 7 \<or> k = 8 \<or> k = 9"
    by arith
  then show "isDigit (digitChar k)" and "digitVal (digitChar k) = k"
    and "(digitChar k = CHR ''0'') = (k = 0)"
    by (auto simp: digitChar_def isDigit_def digitVal_def)
qed



lemma digitsValue_snoc: "digitsValue (ds @ [c]) = 10 * digitsValue ds + digitVal c"
  by (simp add: digitsValue_def)

lemma digitsValue_digitsOf: "digitsValue (digitsOf n) = n"
proof (induction n rule: digitsOf.induct)
  case (1 n)
  show ?case
  proof (cases "n < 10")
    case True
    then show ?thesis by (subst digitsOf.simps) (simp add: digitsValue_def digitChar_props)
  next
    case False
    with 1 show ?thesis by (subst digitsOf.simps) (simp add: digitsValue_snoc digitChar_props)
  qed
qed








subsection \<open>Serialised rules parse back\<close>






subsection \<open>Date texts\<close>

lemma digitsValue_Nil: "digitsValue [] = 0"
  by (simp add: digitsValue_def)

lemma digitsValue_append:
  "digitsValue (xs @ ys) = foldl (\<lambda>a c. 10 * a + digitVal c) (digitsValue xs) ys"
  by (simp add: digitsValue_def)

lemma digitsValue_zeros: "digitsValue (replicate k CHR ''0'') = 0"
  by (induction k) (simp_all add: digitsValue_def digitVal_def)

lemma digitsValue_padStart: "digitsValue (padStart k CHR ''0'' s) = digitsValue s"
  by (simp add: padStart_def digitsValue_append digitsValue_zeros) (simp add: digitsValue_def)

lemma length_digitsOf: "n < 10 ^ k \<Longrightarrow> 0 < k \<Longrightarrow> length (digitsOf n) \<le> k"
proof (induction n arbitrary: k rule: digitsOf.induct)
  case (1 n)
  show ?case
  proof (cases "n < 10")
    case True
    with 1 show ?thesis by (subst digitsOf.simps) simp
  next
    case False
    with "1.prems" obtain j where k: "k = Suc j" by (cases k) auto
    from False "1.prems" k have "0 < j" by (cases j) auto
    moreover from "1.prems" k have "n div 10 < 10 ^ j" by auto
    ultimately have "length (digitsOf (n div 10)) \<le> j" using "1.IH" False by simp
    with False k show ?thesis by (subst digitsOf.simps) simp
  qed
qed

lemma length_padStart: "length (padStart k c s) = max k (length s)"
  by (simp add: padStart_def)

lemma length_pad2: "n < 100 \<Longrightarrow> length (padStart 2 c (digitsOf n)) = 2"
  using length_digitsOf [of n 2] by (simp add: length_padStart)

lemma length_pad4: "n < 10000 \<Longrightarrow> length (padStart 4 c (digitsOf n)) = 4"
  using length_digitsOf [of n 4] by (simp add: length_padStart)

lemma normalizeDay_in_range:
  "1 \<le> d \<Longrightarrow> d \<le> daysInMonth (fst ym) (snd ym) \<Longrightarrow>
     normalizeDay ym d = \<lparr>utcFullYear = fst ym, utcMonth = snd ym, utcDate = d\<rparr>"
  by (subst normalizeDay.simps) simp

lemma daysInMonth_bounds: "28 \<le> daysInMonth y m" "daysInMonth y m \<le> 31"
  by (simp_all add: daysInMonth_def)

lemma digitVal_digit: "isDigit c \<Longrightarrow> digitVal c < 10"
  by (auto simp: isDigit_def digitVal_def)

lemma digitsValue2: "digitsValue [a, b] = 10 * digitVal a + digitVal b"
  by (simp add: digitsValue_def)

lemma digitsValue4:
  "digitsValue [a, b, c, d] = 1000 * digitVal a + 100 * digitVal b + 10 * digitVal c + digitVal d"
  by (simp add: digitsValue_def)

text \<open>The pieces of an ISO date text.\<close>

lemma isIsoDate_E:
  assumes "isIsoDate v"
  obtains y1 y2 y3 y4 m1 m2 d1 d2 where
    "v = [y1, y2, y3, y4, CHR ''-'', m1, m2, CHR ''-'', d1, d2]"
    "isDigit y1" "isDigit y2" "isDigit y3" "isDigit y4"
    "isDigit m1" "isDigit m2" "isDigit d1" "isDigit d2"
  using assms by (auto elim!: isIsoDate.elims)

lemma toISOString_split:
  assumes "0 \<le> utcFullYear date" "utcFullYear date \<le> 9999"
    and "0 \<le> utcMonth date" "utcMonth date \<le> 11"
    and "1 \<le> utcDate date" "utcDate date \<le> 31"
  shows "take 4 (take 10 (toISOString date)) = padStart 4 CHR ''0'' (digitsOf (nat (utcFullYear date)))"
    and "take 2 (drop 5 (take 10 (toISOString date))) =
           padStart 2 CHR ''0'' (digitsOf (nat (utcMonth date + 1)))"
    and "take 2 (drop 8 (take 10 (toISOString date))) =
           padStart 2 CHR ''0'' (digitsOf (nat (utcDate date)))"
proof -
  have ly: "length (padStart 4 CHR ''0'' (digitsOf (nat (utcFullYear date)))) = 4"
    using assms by (intro length_pad4) auto
  have lm: "length (padStart 2 CHR ''0'' (digitsOf (nat (utcMonth date + 1)))) = 2"
    using assms by (intro length_pad2) auto
  have ld: "length (padStart 2 CHR ''0'' (digitsOf (nat (utcDate date)))) = 2"
    using assms by (intro length_pad2) auto
  show "take 4 (take 10 (toISOString date)) = padStart 4 CHR ''0'' (digitsOf (nat (utcFullYear date)))"
    using assms ly by (simp add: toISOString_def isoYear_def)
  show "take 2 (drop 5 (take 10 (toISOString date))) =
           padStart 2 CHR ''0'' (digitsOf (nat (utcMonth date + 1)))"
    using assms ly lm by (simp add: toISOString_def isoYear_def drop_take)
  show "take 2 (drop 8 (take 10 (toISOString date))) =
           padStart 2 CHR ''0'' (digitsOf (nat (utcDate date)))"
    using assms ly lm ld by (simp add: toISOString_def isoYear_def drop_take)
qed

lemma iso_fields_of_text:
  assumes "0 \<le> utcFullYear date" "utcFullYear date \<le> 9999"
    and "0 \<le> utcMonth date" "utcMonth date \<le> 11"
    and "1 \<le> utcDate date" "utcDate date \<le> 31"
    and "take 10 (toISOString date) = v"
  shows "isoYearOf v = utcFullYear date" "isoMonthOf v = utcMonth date + 1"
    "isoDayOf v = utcDate date"
  using toISOString_split [OF assms(1-6)] assms
  by (simp_all add: isoYearOf_def isoMonthOf_def isoDayOf_def digitsValue_padStart
        digitsValue_digitsOf)

lemma isoYearOf_bounds: "isIsoDate v \<Longrightarrow> 0 \<le> isoYearOf v \<and> isoYearOf v \<le> 9999"
proof (erule isIsoDate_E)
  fix y1 y2 y3 y4 m1 m2 d1 d2
  assume "v = [y1, y2, y3, y4, CHR ''-'', m1, m2, CHR ''-'', d1, d2]"
    "isDigit y1" "isDigit y2" "isDigit y3" "isDigit y4"
  then show ?thesis
    using digitVal_digit [of y1] digitVal_digit [of y2] digitVal_digit [of y3]
      digitVal_digit [of y4]
    by (simp add: isoYearOf_def digitsValue4)
qed

lemma makeDate_small:
  assumes "0 \<le> m" "m \<le> 11" "1 \<le> d" "d \<le> 31"
  shows "makeDate y m d =
     (if d \<le> daysInMonth y m then \<lparr>utcFullYear = y, utcMonth = m, utcDate = d\<rparr>
      else \<lparr>utcFullYear = y, utcMonth = m + 1, utcDate = d - daysInMonth y m\<rparr>)"
proof (cases "d \<le> daysInMonth y m")
  case True
  with assms show ?thesis by (simp add: makeDate_def normalizeDay_in_range)
next
  case False
  with assms have m11: "m \<noteq> 11" by (auto simp: daysInMonth_def)
  have "normalizeDay (y, m) d = normalizeDay (y, m + 1) (d - daysInMonth y m)"
    using False assms m11 by (subst normalizeDay.simps) (simp add: followingMonth_def)
  also have "\<dots> = \<lparr>utcFullYear = y, utcMonth = m + 1, utcDate = d - daysInMonth y m\<rparr>"
    using False assms daysInMonth_bounds [of y m] daysInMonth_bounds [of y "m + 1"]
    by (intro normalizeDay_in_range [of _ "(y, m + 1)", simplified]) auto
  finally show ?thesis using False assms by (simp add: makeDate_def)
qed

lemma parseIsoDate_Some:
  assumes "parseIsoDate v = Some date"
  shows "isRealCalendarDate v"
    and "date = \<lparr>utcFullYear = isoYearOf v, utcMonth = isoMonthOf v - 1, utcDate = isoDayOf v\<rparr>"
    and "toIsoDate date = v"
proof -
  from assms have iso: "isIsoDate v"
    by (auto simp: parseIsoDate_def split: if_splits)
  from assms have nd: "newDateFromIso v = Some date" and same: "take 10 (toISOString date) = v"
    by (auto simp: parseIsoDate_def split: if_splits option.splits)
  from nd have m: "1 \<le> isoMonthOf v" "isoMonthOf v \<le> 12"
    and d: "1 \<le> isoDayOf v" "isoDayOf v \<le> 31"
    and mk: "date = makeDate (isoYearOf v) (isoMonthOf v - 1) (isoDayOf v)"
    by (auto simp: newDateFromIso_def Let_def isoYearOf_def isoMonthOf_def isoDayOf_def
          split: if_splits)
  note y = isoYearOf_bounds [OF iso]
  have small: "date =
     (if isoDayOf v \<le> daysInMonth (isoYearOf v) (isoMonthOf v - 1)
      then \<lparr>utcFullYear = isoYearOf v, utcMonth = isoMonthOf v - 1, utcDate = isoDayOf v\<rparr>
      else \<lparr>utcFullYear = isoYearOf v, utcMonth = isoMonthOf v - 1 + 1,
             utcDate = isoDayOf v - daysInMonth (isoYearOf v) (isoMonthOf v - 1)\<rparr>)"
    unfolding mk using m d by (intro makeDate_small) auto
  have le: "isoDayOf v \<le> daysInMonth (isoYearOf v) (isoMonthOf v - 1)"
  proof (rule ccontr)
    assume over: "\<not> ?thesis"
    with small have f: "utcFullYear date = isoYearOf v" "utcMonth date = isoMonthOf v"
      "utcDate date = isoDayOf v - daysInMonth (isoYearOf v) (isoMonthOf v - 1)"
      by simp_all
    have m12: "isoMonthOf v \<noteq> 12"
      using over d by (auto simp: daysInMonth_def)
    have "isoMonthOf v = utcMonth date + 1"
      using f y m d m12 over daysInMonth_bounds [of "isoYearOf v" "isoMonthOf v - 1"]
      by (intro iso_fields_of_text(2) [OF _ _ _ _ _ _ same]) auto
    with f show False by simp
  qed
  with small show "date = \<lparr>utcFullYear = isoYearOf v, utcMonth = isoMonthOf v - 1, utcDate = isoDayOf v\<rparr>"
    by simp
  from iso m d le show "isRealCalendarDate v" by (simp add: isRealCalendarDate_def)
  from same show "toIsoDate date = v" by (simp add: toIsoDate_def)
qed

lemma parseIsoDate_None: "\<not> isRealCalendarDate v \<Longrightarrow> parseIsoDate v = None"
  using parseIsoDate_Some(1) [of v] by (cases "parseIsoDate v") auto

subsection \<open>The forward search\<close>

lemma reachedAtStep_0:
  "reachedAtStep 0 t ty r c x = (x = c \<and> onOrAfter t c)"
  by (auto simp: reachedAtStep_def)

lemma list_all_upt_Suc:
  "list_all P [0 ..< Suc k] = (P 0 \<and> list_all (\<lambda>j. P (Suc j)) [0 ..< k])"
proof -
  have "(\<forall>j<Suc k. P j) = (P 0 \<and> (\<forall>j<k. P (Suc j)))" by (rule All_less_Suc2)
  then show ?thesis unfolding list_all_iff set_upt by (simp add: Ball_def)
qed

lemma reachedAtStep_Suc:
  "reachedAtStep (Suc k) t ty r c x =
     (isBefore t c \<and>
      (case getNextTaskRecurrenceDate c ty r of
         None \<Rightarrow> False
       | Some nx \<Rightarrow> reachedAtStep k t ty r nx x))"
  unfolding reachedAtStep_def list_all_upt_Suc
  by (cases "getNextTaskRecurrenceDate c ty r") auto

lemma onOrAfter_not_before: "onOrAfter t c \<Longrightarrow> \<not> isBefore t c"
  by (auto simp: onOrAfter_def isBefore_def split: option.splits)

lemma recurrenceSearch_reached:
  "(recurrenceSearch n t ty r c = Some x) = (\<exists>k<n. reachedAtStep k t ty r c x)"
proof (induction n arbitrary: c)
  case 0
  show ?case by simp
next
  case (Suc n)
  have split: "(\<exists>k<Suc n. reachedAtStep k t ty r c x) =
      (reachedAtStep 0 t ty r c x \<or> (\<exists>k<n. reachedAtStep (Suc k) t ty r c x))"
    by (rule Ex_less_Suc2)
  show ?case
  proof (cases "parseIsoDate c")
    case None
    then show ?thesis
      unfolding split reachedAtStep_0 reachedAtStep_Suc
      by (simp add: onOrAfter_def isBefore_def)
  next
    case (Some cd)
    show ?thesis
    proof (cases "getTime t \<le> getTime cd")
      case True
      with Some show ?thesis
        unfolding split reachedAtStep_0 reachedAtStep_Suc
        by (auto simp: onOrAfter_def isBefore_def)
    next
      case False
      show ?thesis
      proof (cases "getNextTaskRecurrenceDate c ty r")
        case None
        with Some False show ?thesis
          unfolding split reachedAtStep_0 reachedAtStep_Suc
          by (simp add: onOrAfter_def isBefore_def)
      next
        case (Some nx)
        with \<open>parseIsoDate c = Some cd\<close> False Suc.IH [of nx] show ?thesis
          unfolding split reachedAtStep_0 reachedAtStep_Suc
          by (simp add: onOrAfter_def isBefore_def)
      qed
    qed
  qed
qed

lemma recurrenceSearch_immediate:
  "parseIsoDate c = Some cd \<Longrightarrow> getTime t \<le> getTime cd \<Longrightarrow>
     recurrenceSearch (Suc n) t ty r c = Some c"
  by simp

lemma recurrenceSearch_malformed:
  "parseIsoDate c = None \<Longrightarrow> recurrenceSearch n t ty r c = None"
  by (cases n) simp_all

lemma digitChar_digitVal: "isDigit c \<Longrightarrow> digitChar (digitVal c) = c"
  by (auto simp: isDigit_def digitChar_def digitVal_def)

lemma digitsOf_small: "n < 10 \<Longrightarrow> digitsOf n = [digitChar n]"
  by (subst digitsOf.simps) simp

lemma digitsOf_step: "0 < v \<Longrightarrow> k < 10 \<Longrightarrow> digitsOf (10 * v + k) = digitsOf v @ [digitChar k]"
  by (subst digitsOf.simps) simp

lemma padStart_snoc: "padStart (Suc n) c (s @ [x]) = padStart n c s @ [x]"
  by (simp add: padStart_def)

lemma pad_digits:
  "list_all isDigit ds \<Longrightarrow> ds \<noteq> [] \<Longrightarrow>
     padStart (length ds) CHR ''0'' (digitsOf (digitsValue ds)) = ds"
proof (induction ds rule: rev_induct)
  case Nil
  then show ?case by simp
next
  case (snoc c xs)
  then have c: "isDigit c" and xs: "list_all isDigit xs" by simp_all
  note k = digitVal_digit [OF c]
  show ?case
  proof (cases "xs = []")
    case True
    with c k show ?thesis
      by (simp add: digitsValue_def digitsOf_small digitChar_digitVal padStart_def)
  next
    case False
    with snoc.IH xs have IH: "padStart (length xs) CHR ''0'' (digitsOf (digitsValue xs)) = xs"
      by simp
    show ?thesis
    proof (cases "digitsValue xs = 0")
      case True
      with IH have "xs = replicate (length xs - 1) CHR ''0'' @ [CHR ''0'']"
        by (simp add: digitsOf_small digitChar_def padStart_def)
      also have "\<dots> = replicate (length xs) CHR ''0''"
        using False by (cases xs) (simp_all add: replicate_append_same)
      finally have z: "xs = replicate (length xs) CHR ''0''" .
      have "padStart (length (xs @ [c])) CHR ''0'' (digitsOf (digitsValue (xs @ [c]))) =
            replicate (length xs) CHR ''0'' @ [c]"
        using True k c
        by (simp add: digitsValue_snoc digitsOf_small digitChar_digitVal padStart_def)
      with z show ?thesis by simp
    next
      case False
      then have "digitsOf (digitsValue (xs @ [c])) = digitsOf (digitsValue xs) @ [c]"
        using k c by (simp add: digitsValue_snoc digitsOf_step digitChar_digitVal)
      with IH show ?thesis by (simp add: padStart_snoc)
    qed
  qed
qed

lemma toISOString_fields:
  assumes "isIsoDate v"
    and "1 \<le> isoMonthOf v" "1 \<le> isoDayOf v"
  shows "take 10 (toISOString
            \<lparr>utcFullYear = isoYearOf v, utcMonth = isoMonthOf v - 1, utcDate = isoDayOf v\<rparr>) = v"
proof (rule isIsoDate_E [OF assms(1)])
  fix y1 y2 y3 y4 m1 m2 d1 d2
  assume v: "v = [y1, y2, y3, y4, CHR ''-'', m1, m2, CHR ''-'', d1, d2]"
    and dg: "isDigit y1" "isDigit y2" "isDigit y3" "isDigit y4"
      "isDigit m1" "isDigit m2" "isDigit d1" "isDigit d2"
  have py: "padStart 4 CHR ''0'' (digitsOf (digitsValue [y1, y2, y3, y4])) = [y1, y2, y3, y4]"
    using pad_digits [of "[y1, y2, y3, y4]"] dg by (simp add: eval_nat_numeral)
  have pm: "padStart 2 CHR ''0'' (digitsOf (digitsValue [m1, m2])) = [m1, m2]"
    using pad_digits [of "[m1, m2]"] dg by (simp add: eval_nat_numeral)
  have pd: "padStart 2 CHR ''0'' (digitsOf (digitsValue [d1, d2])) = [d1, d2]"
    using pad_digits [of "[d1, d2]"] dg by (simp add: eval_nat_numeral)
  have flds: "isoYearOf v = int (digitsValue [y1, y2, y3, y4])"
    "isoMonthOf v = int (digitsValue [m1, m2])" "isoDayOf v = int (digitsValue [d1, d2])"
    by (simp_all add: isoYearOf_def isoMonthOf_def isoDayOf_def v)
  have yb: "digitsValue [y1, y2, y3, y4] \<le> 9999"
    using isoYearOf_bounds [OF assms(1)] unfolding flds by simp
  show ?thesis
    unfolding flds toISOString_def isoYear_def using yb
    by (simp add: py pm pd v)
qed

lemma parseIsoDate_real:
  assumes "isRealCalendarDate v"
  shows "parseIsoDate v =
     Some \<lparr>utcFullYear = isoYearOf v, utcMonth = isoMonthOf v - 1, utcDate = isoDayOf v\<rparr>"
proof -
  from assms have iso: "isIsoDate v" and m: "1 \<le> isoMonthOf v" "isoMonthOf v \<le> 12"
    and d: "1 \<le> isoDayOf v" "isoDayOf v \<le> daysInMonth (isoYearOf v) (isoMonthOf v - 1)"
    by (simp_all add: isRealCalendarDate_def)
  from d daysInMonth_bounds(2) [of "isoYearOf v" "isoMonthOf v - 1"] have d31: "isoDayOf v \<le> 31"
    by simp
  have "makeDate (isoYearOf v) (isoMonthOf v - 1) (isoDayOf v) =
      \<lparr>utcFullYear = isoYearOf v, utcMonth = isoMonthOf v - 1, utcDate = isoDayOf v\<rparr>"
    using m d d31 by (simp add: makeDate_small)
  then have "newDateFromIso v =
      Some \<lparr>utcFullYear = isoYearOf v, utcMonth = isoMonthOf v - 1, utcDate = isoDayOf v\<rparr>"
    using m d d31
    by (simp add: newDateFromIso_def Let_def isoYearOf_def isoMonthOf_def isoDayOf_def)
  with iso toISOString_fields [OF iso m(1) d(1)] show ?thesis
    by (simp add: parseIsoDate_def)
qed

lemma parseIsoDate_None_iff: "(parseIsoDate v = None) = (\<not> isRealCalendarDate v)"
  using parseIsoDate_real [of v] parseIsoDate_None [of v] by auto



subsection \<open>Worked dates\<close>

lemma not_real_0230: "\<not> isRealCalendarDate ''2024-02-30''"
  by (simp add: isRealCalendarDate_def isoYearOf_def isoMonthOf_def isoDayOf_def digitsValue_def
        digitVal_def daysInMonth_def isLeapYear_def)

lemma not_real_short: "\<not> isRealCalendarDate ''24-3-1''"
  by (simp add: isRealCalendarDate_def)

lemma real_20240301:
  "parseIsoDate ''2024-03-01'' = Some \<lparr>utcFullYear = 2024, utcMonth = 2, utcDate = 1\<rparr>"
proof -
  have "isRealCalendarDate ''2024-03-01''"
    by (simp add: isRealCalendarDate_def isoYearOf_def isoMonthOf_def isoDayOf_def digitsValue_def
        digitVal_def daysInMonth_def isLeapYear_def isDigit_def)
  from parseIsoDate_real [OF this] show ?thesis
    by (simp add: isoYearOf_def isoMonthOf_def isoDayOf_def digitsValue_def digitVal_def)
qed

lemma real_20240229:
  "parseIsoDate ''2024-02-29'' = Some \<lparr>utcFullYear = 2024, utcMonth = 1, utcDate = 29\<rparr>"
proof -
  have "isRealCalendarDate ''2024-02-29''"
    by (simp add: isRealCalendarDate_def isoYearOf_def isoMonthOf_def isoDayOf_def digitsValue_def
        digitVal_def daysInMonth_def isLeapYear_def isDigit_def)
  from parseIsoDate_real [OF this] show ?thesis
    by (simp add: isoYearOf_def isoMonthOf_def isoDayOf_def digitsValue_def digitVal_def)
qed

lemma toIsoDate_of_text:
  assumes "isIsoDate v" "1 \<le> isoMonthOf v" "1 \<le> isoDayOf v"
    and "date = \<lparr>utcFullYear = isoYearOf v, utcMonth = isoMonthOf v - 1, utcDate = isoDayOf v\<rparr>"
  shows "toIsoDate date = v"
  using toISOString_fields [OF assms(1-3)] assms(4) by (simp add: toIsoDate_def)

lemmas iso_text_simps =
  isoYearOf_def isoMonthOf_def isoDayOf_def digitsValue_def digitVal_def isDigit_def

lemma next_day_20240229:
  "getNextTaskRecurrenceDate ''2024-02-29'' Daily JNull = Some ''2024-03-01''"
proof -
  have "setUTCDate \<lparr>utcFullYear = 2024, utcMonth = 1, utcDate = 29\<rparr> (29 + 1) =
        \<lparr>utcFullYear = 2024, utcMonth = 2, utcDate = 1\<rparr>"
    by (simp add: setUTCDate_def makeDate_def normalizeDay.simps [of "(2024, 1)" 30]
          normalizeDay.simps [of "(2024, 2)" 1] followingMonth_def daysInMonth_def isLeapYear_def)
  moreover have "toIsoDate \<lparr>utcFullYear = 2024, utcMonth = 2, utcDate = 1\<rparr> = ''2024-03-01''"
    by (rule toIsoDate_of_text) (simp_all add: iso_text_simps)
  ultimately show ?thesis
    by (simp add: getNextTaskRecurrenceDate_def getResolvedTaskRecurrenceRule_def real_20240229)
qed

subsection \<open>Task writes\<close>

lemma createTask_normalized: "createTask args = Inr task \<Longrightarrow> behaviorNormalized task"
  by (auto simp: createTask_def Let_def behaviorNormalized_def split: if_splits)

lemma updateTask_normalized:
  "behaviorNormalized existing \<Longrightarrow> updateTask existing args = Inr task \<Longrightarrow> behaviorNormalized task"
  by (auto simp: updateTask_def Let_def behaviorNormalized_def split: if_splits sum.splits option.splits)

subsection \<open>The dispatch store\<close>

lemma find_append_new: "find P xs = None \<Longrightarrow> P x \<Longrightarrow> find P (xs @ [x]) = Some x"
  by (induction xs) (auto split: if_splits)

lemma find_SomeD: "find P xs = Some x \<Longrightarrow> P x \<and> x \<in> set xs"
  by (induction xs) (auto split: if_splits)

lemma getOrCreateDispatch_again:
  "getOrCreateDispatch u dt now2 id2 (snd (getOrCreateDispatch u dt now1 id1 s)) =
     getOrCreateDispatch u dt now1 id1 s"
proof (cases "find (\<lambda>d. dispatchUserId d = u \<and> dispatchDate d = dt) (dispatches s)")
  case None
  then have "find (\<lambda>d. dispatchUserId d = u \<and> dispatchDate d = dt)
      (dispatches s @ [newDispatchRow id1 u dt now1]) = Some (newDispatchRow id1 u dt now1)"
    by (rule find_append_new) (simp add: newDispatchRow_def)
  with None show ?thesis by (simp add: getOrCreateDispatch_def)
next
  case (Some d)
  then show ?thesis by (simp add: getOrCreateDispatch_def)
qed

lemma getOrCreateDispatch_rows:
  "length (filter (\<lambda>d. dispatchUserId d = u \<and> dispatchDate d = dt)
      (dispatches (snd (getOrCreateDispatch u dt now newId s)))) =
   (if filter (\<lambda>d. dispatchUserId d = u \<and> dispatchDate d = dt) (dispatches s) = [] then 1
    else length (filter (\<lambda>d. dispatchUserId d = u \<and> dispatchDate d = dt) (dispatches s)))"
proof (cases "find (\<lambda>d. dispatchUserId d = u \<and> dispatchDate d = dt) (dispatches s)")
  case None
  then have "filter (\<lambda>d. dispatchUserId d = u \<and> dispatchDate d = dt) (dispatches s) = []"
    by (simp add: find_None_iff filter_empty_conv)
  with None show ?thesis by (simp add: getOrCreateDispatch_def newDispatchRow_def)
next
  case (Some d)
  from find_SomeD [OF this]
  have "filter (\<lambda>d. dispatchUserId d = u \<and> dispatchDate d = dt) (dispatches s) \<noteq> []"
    by (auto simp: filter_empty_conv)
  with Some show ?thesis by (simp add: getOrCreateDispatch_def)
qed


lemma isLinked_iff:
  "isLinked did tid s = (\<lparr>dispatchId = did, taskId = tid\<rparr> \<in> set (dispatchTasks s))"
proof -
  have e: "(dispatchId l = did \<and> taskId l = tid) = (l = \<lparr>dispatchId = did, taskId = tid\<rparr>)"
    for l :: DispatchTaskRow
    by (cases l) auto
  show ?thesis by (auto simp: isLinked_def find_None_iff e)
qed

lemma insertLink_linked: "isLinked did tid (insertLink did tid s)"
  by (simp add: insertLink_def isLinked_iff)

lemma insertLink_again: "insertLink did tid (insertLink did tid s) = insertLink did tid s"
  using insertLink_linked [of did tid s] by (simp add: insertLink_def [of did tid "insertLink did tid s"])

lemma insertLink_count:
  "count_list (dispatchTasks (insertLink did tid s)) \<lparr>dispatchId = did, taskId = tid\<rparr> =
     max 1 (count_list (dispatchTasks s) \<lparr>dispatchId = did, taskId = tid\<rparr>)"
proof (cases "isLinked did tid s")
  case True
  then have "count_list (dispatchTasks s) \<lparr>dispatchId = did, taskId = tid\<rparr> \<noteq> 0"
    by (simp add: isLinked_iff count_list_0_iff)
  then have "0 < count_list (dispatchTasks s) \<lparr>dispatchId = did, taskId = tid\<rparr>"
    by simp
  with True show ?thesis by (simp add: insertLink_def)
next
  case False
  then have "count_list (dispatchTasks s) \<lparr>dispatchId = did, taskId = tid\<rparr> = 0"
    by (simp add: isLinked_iff count_list_0_iff)
  with False show ?thesis by (simp add: insertLink_def)
qed

lemma insertLink_frame:
  "dispatches (insertLink did tid s) = dispatches s" "tasks (insertLink did tid s) = tasks s"
  by (simp_all add: insertLink_def)



lemma linkTask_again:
  assumes "linkTask u did tid s = (Inr r, s1)"
  shows "linkTask u did tid s1 = (Inr r, s1)"
proof -
  from assms obtain d t where d: "findDispatch u did s = Some d" "\<not> finalized d"
    and t: "find (\<lambda>t. taskRowId t = tid \<and> taskUserId t = u \<and> deletedAt t = None) (tasks s) = Some t"
    and r: "r = (dispatchRowId d, taskRowId t)"
    and s1: "s1 = insertLink (dispatchRowId d) (taskRowId t) s"
    by (auto simp: linkTask_def split: option.splits if_splits)
  have "findDispatch u did s1 = Some d"
    using d by (simp add: s1 findDispatch_def insertLink_frame)
  moreover have "find (\<lambda>t. taskRowId t = tid \<and> taskUserId t = u \<and> deletedAt t = None) (tasks s1) = Some t"
    using t by (simp add: s1 insertLink_frame)
  ultimately show ?thesis
    using d r by (simp add: linkTask_def s1 insertLink_again)
qed

lemma linkTask_count:
  assumes "linkTask u did tid s = (Inr r, s1)"
  shows "count_list (dispatchTasks s1) \<lparr>dispatchId = fst r, taskId = snd r\<rparr> =
         max 1 (count_list (dispatchTasks s) \<lparr>dispatchId = fst r, taskId = snd r\<rparr>)"
    and "fst r = did" and "snd r = tid"
proof -
  from assms obtain d t where d: "findDispatch u did s = Some d" "\<not> finalized d"
    and t: "find (\<lambda>t. taskRowId t = tid \<and> taskUserId t = u \<and> deletedAt t = None) (tasks s) = Some t"
    and r: "r = (dispatchRowId d, taskRowId t)"
    and s1: "s1 = insertLink (dispatchRowId d) (taskRowId t) s"
    by (auto simp: linkTask_def split: option.splits if_splits)
  show "count_list (dispatchTasks s1) \<lparr>dispatchId = fst r, taskId = snd r\<rparr> =
         max 1 (count_list (dispatchTasks s) \<lparr>dispatchId = fst r, taskId = snd r\<rparr>)"
    by (simp add: r s1 insertLink_count)
  from find_SomeD [OF d(1) [unfolded findDispatch_def]] r show "fst r = did" by simp
  from find_SomeD [OF t] r show "snd r = tid" by simp
qed

lemma unlinkTask_not_linked:
  assumes "findDispatch u did s = Some d" "\<not> finalized d" "\<not> isLinked did tid s"
  shows "unlinkTask u did tid s = (Inr (did, tid), s)"
proof -
  from find_SomeD [OF assms(1) [unfolded findDispatch_def]] have i: "dispatchRowId d = did" by simp
  have "filter (\<lambda>l. \<not> (dispatchId l = did \<and> taskId l = tid)) (dispatchTasks s) = dispatchTasks s"
    using assms(3) by (auto simp: isLinked_def find_None_iff filter_id_conv)
  with assms i show ?thesis by (simp add: unlinkTask_def)
qed



















subsection \<open>The month step\<close>

lemma makeDate_first_of_month:
  "makeDate y m 1 = \<lparr>utcFullYear = y + m div 12, utcMonth = m mod 12, utcDate = 1\<rparr>"
  using daysInMonth_bounds(1) [of "y + m div 12" "m mod 12"]
  by (simp add: makeDate_def normalizeDay_in_range)

lemma makeDate_day_zero:
  assumes "0 \<le> m" "m \<le> 11"
  shows "makeDate y (m + 1) 0 = \<lparr>utcFullYear = y, utcMonth = m, utcDate = daysInMonth y m\<rparr>"
proof -
  have p: "previousMonth (y + (m + 1) div 12, (m + 1) mod 12) = (y, m)"
    using assms by (cases "m = 11") (auto simp: previousMonth_def)
  have "normalizeDay (y + (m + 1) div 12, (m + 1) mod 12) 0 = normalizeDay (y, m) (daysInMonth y m)"
    by (subst normalizeDay.simps) (simp add: p)
  also have "\<dots> = \<lparr>utcFullYear = y, utcMonth = m, utcDate = daysInMonth y m\<rparr>"
    using daysInMonth_bounds(1) [of y m] by (simp add: normalizeDay_in_range)
  finally show ?thesis by (simp add: makeDate_def)
qed

text \<open>The year that \<open>Date.UTC\<close> reads for a year from 0 to 99.\<close>

lemma daysInMonth_utc_year:
  "daysInMonth (if 0 \<le> y \<and> y \<le> 99 then 1900 + y else y) m =
     (if y = 0 \<and> m = 1 then 28 else daysInMonth y m)"
proof (cases "0 \<le> y \<and> y \<le> 99")
  case False
  then show ?thesis by auto
next
  case True
  show ?thesis
  proof (cases "y = 0")
    case True
    then show ?thesis by (simp add: daysInMonth_def isLeapYear_def)
  next
    case False
    with True have "(1900 + y) mod 400 \<noteq> 0" "(1900 + y) mod 100 \<noteq> 0" "y mod 100 \<noteq> 0"
      "y mod 400 \<noteq> 0" "(1900 + y) mod 4 = y mod 4"
      by presburger+
    with True show ?thesis by (simp add: daysInMonth_def isLeapYear_def)
  qed
qed

lemma addMonthsClamped_fields:
  assumes "0 \<le> m" "m \<le> 11" "1 \<le> d" "d \<le> 31"
  shows "addMonthsClamped \<lparr>utcFullYear = y, utcMonth = m, utcDate = d\<rparr> n =
     \<lparr>utcFullYear = y + (m + n) div 12, utcMonth = (m + n) mod 12,
      utcDate = min d (if y + (m + n) div 12 = 0 \<and> (m + n) mod 12 = 1 then 28
                       else daysInMonth (y + (m + n) div 12) ((m + n) mod 12))\<rparr>"
proof -
  let ?y = "y + (m + n) div 12" and ?m = "(m + n) mod 12"
  let ?last = "if ?y = 0 \<and> ?m = 1 then 28 else daysInMonth ?y ?m"
  have m': "0 \<le> ?m" "?m \<le> 11" by simp_all
  have s1: "setUTCDate \<lparr>utcFullYear = y, utcMonth = m, utcDate = d\<rparr> 1 =
      \<lparr>utcFullYear = y, utcMonth = m, utcDate = 1\<rparr>"
    using assms by (simp add: setUTCDate_def makeDate_first_of_month)
  have s2: "setUTCMonth \<lparr>utcFullYear = y, utcMonth = m, utcDate = 1\<rparr> (m + n) =
      \<lparr>utcFullYear = ?y, utcMonth = ?m, utcDate = 1\<rparr>"
    by (simp add: setUTCMonth_def makeDate_first_of_month)
  have s3: "utcDate (newDateUTC ?y (?m + 1) 0) = ?last"
    unfolding newDateUTC_def makeDate_day_zero [OF m'] using daysInMonth_utc_year [of ?y ?m]
    by simp
  have le: "?last \<le> daysInMonth ?y ?m"
    by (simp add: daysInMonth_bounds)
  have "(1::int) \<le> 28" by simp
  then have l1: "1 \<le> ?last" using daysInMonth_bounds(1) [of ?y ?m] by (simp del: One_nat_def)
  have "makeDate ?y ?m (min d ?last) =
      \<lparr>utcFullYear = ?y, utcMonth = ?m, utcDate = min d ?last\<rparr>"
    unfolding makeDate_def using assms(3) le l1 m'
    by (subst normalizeDay_in_range) (auto simp: min_def)
  then have s4: "setUTCDate \<lparr>utcFullYear = ?y, utcMonth = ?m, utcDate = 1\<rparr> (min d ?last) =
      \<lparr>utcFullYear = ?y, utcMonth = ?m, utcDate = min d ?last\<rparr>"
    by (simp add: setUTCDate_def)
  show ?thesis
    unfolding addMonthsClamped_def Let_def
    by (simp only: s1 s2 s3 s4 Date.simps)
qed

text \<open>
  The month step on a valid anchor: the target month is the anchor's month advanced by
  the interval, and the day is the smaller of the anchor's day and the last day of the
  target month, which is read as 28 for February of the year 0.
\<close>

lemma getNextTaskRecurrenceDate_month:
  assumes "parseIsoDate anchor = Some a"
    and "getResolvedTaskRecurrenceRule ty r = Some rule" and "unit rule = UnitMonth"
  shows "getNextTaskRecurrenceDate anchor ty r =
     Some (toIsoDate
       \<lparr>utcFullYear = utcFullYear a + (utcMonth a + interval rule) div 12,
        utcMonth = (utcMonth a + interval rule) mod 12,
        utcDate = min (utcDate a)
          (if utcFullYear a + (utcMonth a + interval rule) div 12 = 0 \<and>
              (utcMonth a + interval rule) mod 12 = 1 then 28
           else daysInMonth (utcFullYear a + (utcMonth a + interval rule) div 12)
                  ((utcMonth a + interval rule) mod 12))\<rparr>)"
proof -
  from parseIsoDate_Some [OF assms(1)]
  have real: "isRealCalendarDate anchor"
    and a: "a = \<lparr>utcFullYear = isoYearOf anchor, utcMonth = isoMonthOf anchor - 1,
                 utcDate = isoDayOf anchor\<rparr>"
    by simp_all
  from real have b: "0 \<le> isoMonthOf anchor - 1" "isoMonthOf anchor - 1 \<le> 11"
    "1 \<le> isoDayOf anchor" "isoDayOf anchor \<le> 31"
    using daysInMonth_bounds(2) [of "isoYearOf anchor" "isoMonthOf anchor - 1"]
    by (auto simp: isRealCalendarDate_def)
  have "addMonthsClamped a (interval rule) =
       \<lparr>utcFullYear = utcFullYear a + (utcMonth a + interval rule) div 12,
        utcMonth = (utcMonth a + interval rule) mod 12,
        utcDate = min (utcDate a)
          (if utcFullYear a + (utcMonth a + interval rule) div 12 = 0 \<and>
              (utcMonth a + interval rule) mod 12 = 1 then 28
           else daysInMonth (utcFullYear a + (utcMonth a + interval rule) div 12)
                  ((utcMonth a + interval rule) mod 12))\<rparr>"
    unfolding a using addMonthsClamped_fields [OF b, of "isoYearOf anchor" "interval rule"]
    by simp
  with assms show ?thesis by (simp add: getNextTaskRecurrenceDate_def)
qed

lemma monthly_rule: "getResolvedTaskRecurrenceRule Monthly r = Some \<lparr>interval = 1, unit = UnitMonth\<rparr>"
  by (simp add: getResolvedTaskRecurrenceRule_def)

lemma real_date_text:
  assumes "isRealCalendarDate v" "isoYearOf v = y" "isoMonthOf v - 1 = m" "isoDayOf v = d"
  shows "parseIsoDate v = Some \<lparr>utcFullYear = y, utcMonth = m, utcDate = d\<rparr>"
    and "toIsoDate \<lparr>utcFullYear = y, utcMonth = m, utcDate = d\<rparr> = v"
proof -
  show p: "parseIsoDate v = Some \<lparr>utcFullYear = y, utcMonth = m, utcDate = d\<rparr>"
    using parseIsoDate_real [OF assms(1)] assms(2-4) by simp
  from parseIsoDate_Some(3) [OF p] show "toIsoDate \<lparr>utcFullYear = y, utcMonth = m, utcDate = d\<rparr> = v" .
qed

lemmas real_date_simps =
  isRealCalendarDate_def iso_text_simps daysInMonth_def isLeapYear_def

lemma next_month_examples:
  "getNextTaskRecurrenceDate ''2024-01-31'' Monthly JNull = Some ''2024-02-29''"
  "getNextTaskRecurrenceDate ''2023-01-31'' Monthly JNull = Some ''2023-02-28''"
proof -
  have a: "parseIsoDate ''2024-01-31'' = Some \<lparr>utcFullYear = 2024, utcMonth = 0, utcDate = 31\<rparr>"
    by (rule real_date_text(1)) (simp_all add: real_date_simps)
  have b: "toIsoDate \<lparr>utcFullYear = 2024, utcMonth = 1, utcDate = 29\<rparr> = ''2024-02-29''"
    by (rule real_date_text(2)) (simp_all add: real_date_simps)
  show "getNextTaskRecurrenceDate ''2024-01-31'' Monthly JNull = Some ''2024-02-29''"
    unfolding getNextTaskRecurrenceDate_month [OF a monthly_rule, simplified]
    by (simp add: daysInMonth_def isLeapYear_def b)
  have c: "parseIsoDate ''2023-01-31'' = Some \<lparr>utcFullYear = 2023, utcMonth = 0, utcDate = 31\<rparr>"
    by (rule real_date_text(1)) (simp_all add: real_date_simps)
  have d: "toIsoDate \<lparr>utcFullYear = 2023, utcMonth = 1, utcDate = 28\<rparr> = ''2023-02-28''"
    by (rule real_date_text(2)) (simp_all add: real_date_simps)
  show "getNextTaskRecurrenceDate ''2023-01-31'' Monthly JNull = Some ''2023-02-28''"
    unfolding getNextTaskRecurrenceDate_month [OF c monthly_rule, simplified]
    by (simp add: daysInMonth_def isLeapYear_def d)
qed

lemma year_zero_texts:
  "parseIsoDate ''0000-01-31'' = Some \<lparr>utcFullYear = 0, utcMonth = 0, utcDate = 31\<rparr>"
  "parseIsoDate ''0000-02-29'' = Some \<lparr>utcFullYear = 0, utcMonth = 1, utcDate = 29\<rparr>"
  "toIsoDate \<lparr>utcFullYear = 0, utcMonth = 1, utcDate = 28\<rparr> = ''0000-02-28''"
  "parseIsoDate ''9999-12-31'' = Some \<lparr>utcFullYear = 9999, utcMonth = 11, utcDate = 31\<rparr>"
  by (rule real_date_text; simp add: real_date_simps)+

lemma toIsoDate_year_10000:
  "toIsoDate \<lparr>utcFullYear = 10000, utcMonth = 0, utcDate = 31\<rparr> = ''+010000-01''"
proof -
  have "digitsOf 10000 = ''10000''" "digitsOf 1 = ''1''" "digitsOf 31 = ''31''"
    by (simp_all add: digitsOf.simps [of 10000] digitsOf.simps [of 1000] digitsOf.simps [of 100]
          digitsOf.simps [of 10] digitsOf.simps [of 31] digitsOf_small digitChar_def)
  then show ?thesis
    by (simp add: toIsoDate_def toISOString_def isoYear_def padStart_def)
qed

section \<open>The claims\<close>

text \<open>
  C1.  The month step does not clamp to the last day of the target month for every valid
  anchor: from 31 January of the year 0000 it gives 28 February, although 29 February
  0000 is a real calendar date for the same code, because the last day of the target
  month is read through \<open>Date.UTC\<close>, which takes the year 0 for 1900.  From December
  9999 it gives the first ten characters of a year printed with six digits.
\<close>

theorem C1_month_step_at_year_zero:
  "getNextTaskRecurrenceDate ''0000-01-31'' Monthly JNull = Some ''0000-02-28'' \<and>
   parseIsoDate ''0000-02-29'' = Some \<lparr>utcFullYear = 0, utcMonth = 1, utcDate = 29\<rparr> \<and>
   getNextTaskRecurrenceDate ''9999-12-31'' Monthly JNull = Some ''+010000-01''"
proof -
  have a: "getNextTaskRecurrenceDate ''0000-01-31'' Monthly JNull = Some ''0000-02-28''"
    unfolding getNextTaskRecurrenceDate_month [OF year_zero_texts(1) monthly_rule, simplified]
    by (simp add: year_zero_texts(3))
  have b: "getNextTaskRecurrenceDate ''9999-12-31'' Monthly JNull = Some ''+010000-01''"
    unfolding getNextTaskRecurrenceDate_month [OF year_zero_texts(4) monthly_rule, simplified]
    by (simp add: daysInMonth_def isLeapYear_def toIsoDate_year_10000)
  from a b year_zero_texts(2) show ?thesis by simp
qed

text \<open>
  C2.  For a valid anchor and a valid target, \<open>getNextTaskRecurrenceOnOrAfter\<close>
  returns the anchor unchanged when the target is not after the anchor.  In general it
  returns a cursor exactly when that cursor is reached within the 4000 iterations of the
  loop: it is the anchor advanced \<open>k\<close> times by \<open>getNextTaskRecurrenceDate\<close> for some
  \<open>k\<close> below 4000, it is a date on or after the target, and every earlier cursor is a
  date before the target.  When no cursor is reached in that way, within the 4000
  iterations, the result is null.
\<close>

theorem C2_search_returns_first_cursor_on_or_after:
  assumes "parseIsoDate anchor = Some a" and "parseIsoDate target = Some t"
  shows "(getTime t \<le> getTime a \<longrightarrow>
            getNextTaskRecurrenceOnOrAfter anchor ty r target = Some anchor) \<and>
         (\<forall>c. (getNextTaskRecurrenceOnOrAfter anchor ty r target = Some c) =
              (\<exists>k<4000. reachedAtStep k t ty r anchor c)) \<and>
         ((getNextTaskRecurrenceOnOrAfter anchor ty r target = None) =
              (\<forall>k<4000. \<forall>c. \<not> reachedAtStep k t ty r anchor c))"
proof -
  have 2: "(getNextTaskRecurrenceOnOrAfter anchor ty r target = Some c) =
              (\<exists>k<4000. reachedAtStep k t ty r anchor c)" for c
    using assms unfolding getNextTaskRecurrenceOnOrAfter_def
    by (simp add: recurrenceSearch_reached)
  have 3: "(getNextTaskRecurrenceOnOrAfter anchor ty r target = None) =
              (\<forall>k<4000. \<forall>c. \<not> reachedAtStep k t ty r anchor c)"
  proof -
    have "(getNextTaskRecurrenceOnOrAfter anchor ty r target = None) =
          (\<forall>c. getNextTaskRecurrenceOnOrAfter anchor ty r target \<noteq> Some c)"
      by (cases "getNextTaskRecurrenceOnOrAfter anchor ty r target") auto
    also have "\<dots> = (\<forall>k<4000. \<forall>c. \<not> reachedAtStep k t ty r anchor c)"
      unfolding 2 by blast
    finally show ?thesis .
  qed
  have 1: "getTime t \<le> getTime a \<longrightarrow>
            getNextTaskRecurrenceOnOrAfter anchor ty r target = Some anchor"
  proof
    assume "getTime t \<le> getTime a"
    with assms have "reachedAtStep 0 t ty r anchor anchor"
      by (simp add: reachedAtStep_0 onOrAfter_def)
    then have "\<exists>k<4000. reachedAtStep k t ty r anchor anchor" by (intro exI [of _ 0]) simp
    then show "getNextTaskRecurrenceOnOrAfter anchor ty r target = Some anchor"
      by (simp only: 2)
  qed
  from 1 2 3 show ?thesis by blast
qed

theorem C2_witness:
  "getNextTaskRecurrenceOnOrAfter ''2024-03-01'' Daily JNull ''2024-02-29'' = Some ''2024-03-01'' \<and>
   getNextTaskRecurrenceOnOrAfter ''2024-02-29'' Daily JNull ''2024-03-01'' = Some ''2024-03-01'' \<and>
   getNextTaskRecurrenceOnOrAfter ''2024-02-29'' RNone JNull ''2024-03-01'' = None"
proof -
  let ?feb = "\<lparr>utcFullYear = 2024, utcMonth = 1, utcDate = 29\<rparr>"
  let ?mar = "\<lparr>utcFullYear = 2024, utcMonth = 2, utcDate = 1\<rparr>"
  have lt: "getTime ?feb < getTime ?mar"
    by (simp add: getTime_def dayNumber_def daysInMonth_def isLeapYear_def eval_nat_numeral)
  have step: "reachedAtStep 1 ?mar Daily JNull ''2024-02-29'' ''2024-03-01''"
    using lt unfolding One_nat_def reachedAtStep_Suc reachedAtStep_0
    by (simp add: next_day_20240229 isBefore_def onOrAfter_def real_20240229 real_20240301)
  have ex: "\<exists>k<4000. reachedAtStep k ?mar Daily JNull ''2024-02-29'' ''2024-03-01''"
    using step by (intro exI [of _ 1]) simp
  have no: "\<not> reachedAtStep k ?mar RNone JNull ''2024-02-29'' c" for k c
    using lt
    by (cases k)
       (simp_all add: reachedAtStep_0 reachedAtStep_Suc onOrAfter_def real_20240229
          getNextTaskRecurrenceDate_def getResolvedTaskRecurrenceRule_def)
  show ?thesis
    using C2_search_returns_first_cursor_on_or_after [OF real_20240301 real_20240229, of Daily JNull]
      C2_search_returns_first_cursor_on_or_after [OF real_20240229 real_20240301, of Daily JNull]
      C2_search_returns_first_cursor_on_or_after [OF real_20240229 real_20240301, of RNone JNull]
      lt ex no
    by simp
qed



text \<open>
  C4.  A second \<open>getOrCreateDispatch\<close> for the same user and date returns the dispatch
  of the first and leaves the store as the first left it, and the two calls leave one row
  for the pair where there was none.  A \<open>linkTask\<close> that succeeds succeeds again with
  the same result and no change of the store, and leaves exactly one link row for the pair
  when there was at most one; linking a pair that is linked changes nothing.  Unlinking a
  pair that is not linked, from an open dispatch, succeeds and changes nothing.
\<close>

theorem C4_get_or_create_and_link_idempotent:
  "getOrCreateDispatch u dt now2 id2 (snd (getOrCreateDispatch u dt now1 id1 s)) =
     getOrCreateDispatch u dt now1 id1 s \<and>
   length (filter (\<lambda>d. dispatchUserId d = u \<and> dispatchDate d = dt)
      (dispatches (snd (getOrCreateDispatch u dt now1 id1 s)))) =
     (if filter (\<lambda>d. dispatchUserId d = u \<and> dispatchDate d = dt) (dispatches s) = [] then 1
      else length (filter (\<lambda>d. dispatchUserId d = u \<and> dispatchDate d = dt) (dispatches s))) \<and>
   (linkTask u did tid s = (Inr r, s1) \<longrightarrow>
      r = (did, tid) \<and> linkTask u did tid s1 = (Inr r, s1) \<and>
      count_list (dispatchTasks s1) \<lparr>dispatchId = did, taskId = tid\<rparr> =
        max 1 (count_list (dispatchTasks s) \<lparr>dispatchId = did, taskId = tid\<rparr>)) \<and>
   (isLinked did2 tid2 s2 \<longrightarrow> insertLink did2 tid2 s2 = s2) \<and>
   (findDispatch u3 did3 s3 = Some d3 \<and> \<not> finalized d3 \<and> \<not> isLinked did3 tid3 s3 \<longrightarrow>
      unlinkTask u3 did3 tid3 s3 = (Inr (did3, tid3), s3))"
proof -
  have l: "linkTask u did tid s = (Inr r, s1) \<longrightarrow>
      r = (did, tid) \<and> linkTask u did tid s1 = (Inr r, s1) \<and>
      count_list (dispatchTasks s1) \<lparr>dispatchId = did, taskId = tid\<rparr> =
        max 1 (count_list (dispatchTasks s) \<lparr>dispatchId = did, taskId = tid\<rparr>)"
  proof
    assume a: "linkTask u did tid s = (Inr r, s1)"
    from linkTask_count [OF a] have "r = (did, tid)" by (cases r) simp
    with linkTask_again [OF a] linkTask_count(1) [OF a]
    show "r = (did, tid) \<and> linkTask u did tid s1 = (Inr r, s1) \<and>
      count_list (dispatchTasks s1) \<lparr>dispatchId = did, taskId = tid\<rparr> =
        max 1 (count_list (dispatchTasks s) \<lparr>dispatchId = did, taskId = tid\<rparr>)"
      by simp
  qed
  have i: "isLinked did2 tid2 s2 \<longrightarrow> insertLink did2 tid2 s2 = s2"
    by (simp add: insertLink_def)
  have n: "findDispatch u3 did3 s3 = Some d3 \<and> \<not> finalized d3 \<and> \<not> isLinked did3 tid3 s3 \<longrightarrow>
      unlinkTask u3 did3 tid3 s3 = (Inr (did3, tid3), s3)"
    using unlinkTask_not_linked by blast
  from getOrCreateDispatch_again [of u dt now2 id2 now1 id1 s]
    getOrCreateDispatch_rows [of u dt now1 id1 s] l i n
  show ?thesis by blast
qed

theorem C4_witness:
  "fst (getOrCreateDispatch ''u1'' ''2026-02-22'' ''t2'' ''d3''
         (snd (getOrCreateDispatch ''u1'' ''2026-02-22'' ''t1'' ''d2'' exampleStore))) =
     newDispatchRow ''d2'' ''u1'' ''2026-02-22'' ''t1'' \<and>
   linkTask ''u1'' ''d1'' ''b'' exampleStore = (Inr (''d1'', ''b''), exampleStore) \<and>
   count_list (dispatchTasks exampleStore) \<lparr>dispatchId = ''d1'', taskId = ''b''\<rparr> = 1 \<and>
   unlinkTask ''u1'' ''d1'' ''z'' exampleStore = (Inr (''d1'', ''z''), exampleStore)"
proof -
  let ?d = "\<lparr>dispatchRowId = ''d1'', dispatchUserId = ''u1'', dispatchDate = ''2026-02-21'',
         summary = [], finalized = False, createdAt = ''t0'', updatedAt = ''t0''\<rparr>"
  have found: "findDispatch ''u1'' ''d1'' exampleStore = Some ?d"
    by (simp add: exampleStore_def findDispatch_def)
  have g: "getOrCreateDispatch ''u1'' ''2026-02-22'' ''t1'' ''d2'' exampleStore =
     (newDispatchRow ''d2'' ''u1'' ''2026-02-22'' ''t1'',
      exampleStore\<lparr>dispatches := dispatches exampleStore @
         [newDispatchRow ''d2'' ''u1'' ''2026-02-22'' ''t1'']\<rparr>)"
    by (simp add: getOrCreateDispatch_def exampleStore_def)
  have lk: "isLinked ''d1'' ''b'' exampleStore" "\<not> isLinked ''d1'' ''z'' exampleStore"
    by (simp_all add: isLinked_def exampleStore_def)
  have il: "insertLink ''d1'' ''b'' exampleStore = exampleStore"
    using lk by (simp add: insertLink_def)
  have tf: "find (\<lambda>t. taskRowId t = ''b'' \<and> taskUserId t = ''u1'' \<and> deletedAt t = None)
              (tasks exampleStore) =
            Some \<lparr>taskRowId = ''b'', taskUserId = ''u1'', status = StatusOpen, deletedAt = None\<rparr>"
    by (simp add: exampleStore_def)
  have l0: "linkTask ''u1'' ''d1'' ''b'' exampleStore = (Inr (''d1'', ''b''), exampleStore)"
    by (simp add: linkTask_def found tf il)
  have c0: "count_list (dispatchTasks exampleStore) \<lparr>dispatchId = ''d1'', taskId = ''b''\<rparr> = 1"
    by (simp add: exampleStore_def)
  from C4_get_or_create_and_link_idempotent
     [of "''u1''" "''2026-02-22''" "''t2''" "''d3''" "''t1''" "''d2''" exampleStore
         "''d1''" "''b''" "(''d1'', ''b'')" exampleStore "''d1''" "''b''" exampleStore
         "''u1''" "''d1''" exampleStore ?d "''z''"]
    g lk found l0 c0
  show ?thesis by simp
qed



text \<open>
  C8.  When the anchor does not denote a real calendar date (it does not have the pattern
  YYYY-MM-DD, or its month or day does not exist), \<open>getNextTaskRecurrenceDate\<close> and
  \<open>getNextTaskRecurrenceOnOrAfter\<close> return null; the latter also returns null when the
  target is such a text, and its loop returns null on such a cursor.  The texts that
  \<open>parseIsoDate\<close> rejects are exactly those that denote no real calendar date.
\<close>

theorem C8_malformed_dates_yield_null:
  "(\<not> isRealCalendarDate anchor \<longrightarrow>
      getNextTaskRecurrenceDate anchor ty r = None \<and>
      getNextTaskRecurrenceOnOrAfter anchor ty r target = None) \<and>
   (\<not> isRealCalendarDate target \<longrightarrow>
      getNextTaskRecurrenceOnOrAfter anchor ty r target = None) \<and>
   (\<not> isRealCalendarDate cursor \<longrightarrow> recurrenceSearch n t ty r cursor = None) \<and>
   (parseIsoDate v = None) = (\<not> isRealCalendarDate v)"
proof -
  have a: "\<not> isRealCalendarDate anchor \<longrightarrow>
      getNextTaskRecurrenceDate anchor ty r = None \<and>
      getNextTaskRecurrenceOnOrAfter anchor ty r target = None"
    by (auto simp: getNextTaskRecurrenceDate_def getNextTaskRecurrenceOnOrAfter_def
          parseIsoDate_None recurrenceSearch_malformed split: option.splits)
  have b: "\<not> isRealCalendarDate target \<longrightarrow>
      getNextTaskRecurrenceOnOrAfter anchor ty r target = None"
    by (simp add: getNextTaskRecurrenceOnOrAfter_def parseIsoDate_None)
  have c: "\<not> isRealCalendarDate cursor \<longrightarrow> recurrenceSearch n t ty r cursor = None"
    by (simp add: parseIsoDate_None recurrenceSearch_malformed)
  from a b c parseIsoDate_None_iff [of v] show ?thesis by blast
qed

theorem C8_witness:
  "getNextTaskRecurrenceDate ''2024-02-30'' Daily JNull = None \<and>
   getNextTaskRecurrenceOnOrAfter ''2024-02-30'' Daily JNull ''2024-03-01'' = None \<and>
   getNextTaskRecurrenceOnOrAfter ''2024-03-01'' Daily JNull ''24-3-1'' = None \<and>
   parseIsoDate ''2024-02-30'' = None"
  using C8_malformed_dates_yield_null [where anchor = "''2024-02-30''" and ty = Daily
      and r = JNull and target = "''2024-03-01''" and v = "''2024-02-30''"]
    C8_malformed_dates_yield_null [where anchor = "''2024-03-01''" and ty = Daily
      and r = JNull and target = "''24-3-1''"]
    not_real_0230 not_real_short
  by simp

text \<open>
  C9.  The route \<open>PUT /api/tasks/[id]\<close> does not keep the invariant: on a task that
  \<open>create-task\<close> stored as daily with behavior duplicate-on-schedule, a body that sets
  the type to none is accepted and the stored behavior stays duplicate-on-schedule.
\<close>

theorem C9_put_keeps_duplicate_behavior:
  "createTask \<lparr>createDueDate = Some ''2026-02-21'', createRecurrenceType = Some Daily,
               createRecurrenceBehavior = Some DuplicateOnSchedule,
               createRecurrenceRule = None\<rparr> =
     Inr \<lparr>dueDate = Some ''2026-02-21'', recurrenceType = Daily,
          recurrenceBehavior = DuplicateOnSchedule, recurrenceRule = None\<rparr> \<and>
   putTask \<lparr>dueDate = Some ''2026-02-21'', recurrenceType = Daily,
            recurrenceBehavior = DuplicateOnSchedule, recurrenceRule = None\<rparr>
           \<lparr>putDueDate = None, putRecurrenceType = Some RNone, putRecurrenceRule = None\<rparr> =
     Inr \<lparr>dueDate = Some ''2026-02-21'', recurrenceType = RNone,
          recurrenceBehavior = DuplicateOnSchedule, recurrenceRule = None\<rparr> \<and>
   behaviorNormalized \<lparr>dueDate = Some ''2026-02-21'', recurrenceType = RNone,
          recurrenceBehavior = DuplicateOnSchedule, recurrenceRule = None\<rparr> = False \<and>
   updateTask \<lparr>dueDate = Some ''2026-02-21'', recurrenceType = Daily,
            recurrenceBehavior = DuplicateOnSchedule, recurrenceRule = None\<rparr>
           \<lparr>updateDueDate = None, updateRecurrenceType = Some RNone,
            updateRecurrenceBehavior = None, updateRecurrenceRule = None\<rparr> =
     Inr \<lparr>dueDate = Some ''2026-02-21'', recurrenceType = RNone,
          recurrenceBehavior = AfterCompletion, recurrenceRule = None\<rparr>"
  by (simp add: createTask_def putTask_def updateTask_def nextRuleOf_def ruleIsSet_def
        ruleMissing_def behaviorNormalized_def trim_def isJsWhitespace_def)

text \<open>
  C10.  When the anchor is a valid date on or after the valid target date,
  \<open>getNextTaskRecurrenceOnOrAfter\<close> returns the anchor whatever the recurrence type and
  rule are, also when the rule resolves to null (the type is none, or it is custom and the
  rule does not parse), although \<open>getNextTaskRecurrenceDate\<close> is null for such a rule.
\<close>

theorem C10_anchor_returned_when_rule_is_null:
  assumes "parseIsoDate anchor = Some a" and "parseIsoDate target = Some t"
    and "getTime t \<le> getTime a"
  shows "getNextTaskRecurrenceOnOrAfter anchor ty r target = Some anchor \<and>
         (getResolvedTaskRecurrenceRule ty r = None \<longrightarrow>
            getNextTaskRecurrenceDate anchor ty r = None \<and>
            getNextTaskRecurrenceOnOrAfter anchor ty r target = Some anchor) \<and>
         getResolvedTaskRecurrenceRule RNone r = None \<and>
         (parseTaskCustomRecurrenceRule r = None \<longrightarrow> getResolvedTaskRecurrenceRule Custom r = None)"
proof -
  have n: "(4000::nat) = Suc 3999" by simp
  have "recurrenceSearch (Suc 3999) t ty r anchor = Some anchor"
    using assms by (rule_tac recurrenceSearch_immediate)
  then have "getNextTaskRecurrenceOnOrAfter anchor ty r target = Some anchor"
    unfolding getNextTaskRecurrenceOnOrAfter_def assms(2) n by simp
  then show ?thesis
    by (simp add: getNextTaskRecurrenceDate_def getResolvedTaskRecurrenceRule_def)
qed

theorem C10_witness:
  "getNextTaskRecurrenceOnOrAfter ''2024-03-01'' RNone JNull ''2024-02-29'' = Some ''2024-03-01'' \<and>
   getNextTaskRecurrenceDate ''2024-03-01'' RNone JNull = None \<and>
   getNextTaskRecurrenceOnOrAfter ''2024-03-01'' Custom (JString ''every day'') ''2024-02-29'' =
     Some ''2024-03-01''"
proof -
  have le: "getTime \<lparr>utcFullYear = 2024, utcMonth = 1, utcDate = 29\<rparr>
              \<le> getTime \<lparr>utcFullYear = 2024, utcMonth = 2, utcDate = 1\<rparr>"
    by (simp add: getTime_def dayNumber_def daysInMonth_def isLeapYear_def eval_nat_numeral)
  have none: "getResolvedTaskRecurrenceRule RNone JNull = None"
    by (simp add: getResolvedTaskRecurrenceRule_def)
  show ?thesis
    using C10_anchor_returned_when_rule_is_null [OF real_20240301 real_20240229 le, of RNone JNull]
      C10_anchor_returned_when_rule_is_null [OF real_20240301 real_20240229 le, of Custom "JString ''every day''"]
      none
    by simp
qed

end
